theory Spec2Isabelle
  imports Main "HOL-Library.AList"
begin

section \<open>Values, requests and handler signals\<close>

text \<open>
  The application is an Express server (\<^verbatim>\<open>server.js\<close>) with one router
  (\<^verbatim>\<open>hubs/hubs-router.js\<close>). A JavaScript value that travels through a request
  (a decoded body, a record of the persistence layer, a failure object) is a \<open>js\<close>.
  An object is an association list in property order.
\<close>

datatype js =
    JUndefined
  | JNull
  | JBool bool
  | JNum int
  | JStr string
  | JArr "js list"
  | JObj "(string \<times> js) list"

text \<open>The object literal \<^verbatim>\<open>{message: '...'}\<close> that the handlers build.\<close>

definition message :: "string \<Rightarrow> js" where
  "message s = JObj [(''message'', JStr s)]"

text \<open>JavaScript truthiness, as used by \<^verbatim>\<open>req.body && ...\<close>.\<close>

fun truthy :: "js \<Rightarrow> bool" where
  "truthy JUndefined = False"
| "truthy JNull = False"
| "truthy (JBool b) = b"
| "truthy (JNum n) = (n \<noteq> 0)"
| "truthy (JStr s) = (s \<noteq> [])"
| "truthy (JArr xs) = True"
| "truthy (JObj kvs) = True"

text \<open>Decimal text of an index, for the keys of an array.\<close>

fun show_nat :: "nat \<Rightarrow> string" where
  "show_nat n =
     (if n < 10 then [''0123456789'' ! n]
      else show_nat (n div 10) @ [''0123456789'' ! (n mod 10)])"

declare show_nat.simps [simp del]

text \<open>
  The own enumerable properties of a value: what \<^verbatim>\<open>Object.keys\<close> lists and what
  the spread \<^verbatim>\<open>{...v}\<close> copies. A repeated key of the association list is one
  property (the first entry is the one read).
\<close>

fun own_entries :: "js \<Rightarrow> (string \<times> js) list" where
  "own_entries (JObj kvs) = kvs"
| "own_entries (JArr xs) = map (\<lambda>i. (show_nat i, xs ! i)) [0..<length xs]"
| "own_entries (JStr s) = map (\<lambda>i. (show_nat i, JStr [s ! i])) [0..<length s]"
| "own_entries _ = []"

definition Object_keys :: "js \<Rightarrow> string list" where
  "Object_keys v = remdups (map fst (own_entries v))"

text \<open>
  The request object, with the fields the handlers read or assign: \<^verbatim>\<open>req.params\<close>,
  \<^verbatim>\<open>req.query\<close>, \<^verbatim>\<open>req.body\<close> (\<open>JUndefined\<close> when no body was decoded),
  and the two properties that middleware attaches, \<^verbatim>\<open>req.hub\<close> and
  \<^verbatim>\<open>req.name\<close> (\<open>None\<close> while unassigned).
\<close>

record req =
  params :: "(string \<times> string) list"
  query :: js
  body :: js
  hub :: "js option"
  name :: "string option"

text \<open>\<^verbatim>\<open>req.params.id\<close>: the bound text, or \<^verbatim>\<open>undefined\<close>.\<close>

definition param :: "req \<Rightarrow> string \<Rightarrow> js" where
  "param r k = (case map_of (params r) k of Some s \<Rightarrow> JStr s | None \<Rightarrow> JUndefined)"

text \<open>
  What a middleware function does with its continuation and the response:
  \<^verbatim>\<open>next()\<close> is \<open>Advance\<close>, \<^verbatim>\<open>next(value)\<close> is \<open>Fail value\<close>,
  \<^verbatim>\<open>res.status(s).json(b)\<close> is \<open>Write s b\<close>. A handler returns the signals it
  gives in order, the request as it leaves it, and the persistence state.
\<close>

datatype signal = Advance | Fail js | Write nat js

type_synonym 'w handler = "req \<Rightarrow> 'w \<Rightarrow> signal list \<times> req \<times> 'w"

type_synonym 'w error_handler = "js \<Rightarrow> req \<Rightarrow> 'w \<Rightarrow> signal list \<times> req \<times> 'w"

fun is_Write :: "signal \<Rightarrow> bool" where
  "is_Write (Write s b) = True"
| "is_Write _ = False"

fun is_Fail :: "signal \<Rightarrow> bool" where
  "is_Fail (Fail v) = True"
| "is_Fail _ = False"

section \<open>The persistence collaborator\<close>

text \<open>
  \<^verbatim>\<open>hubs-model.js\<close> and \<^verbatim>\<open>messages-model.js\<close> are required by the router and
  are not part of the sources, so the router is parametrised by them. An awaited call
  on persistence state \<open>'w\<close> either rejects (\<open>Inl error\<close>) or resolves (\<open>Inr result\<close>),
  and leaves a new state. Result types follow the interface: a sequence of records, a
  record or absent, a stored record, a count.
\<close>

record 'w db =
  Hubs_find :: "js \<Rightarrow> 'w \<Rightarrow> (js + js list) \<times> 'w"
  Hubs_findById :: "js \<Rightarrow> 'w \<Rightarrow> (js + js option) \<times> 'w"
  Hubs_add :: "js \<Rightarrow> 'w \<Rightarrow> (js + js) \<times> 'w"
  Hubs_remove :: "js \<Rightarrow> 'w \<Rightarrow> (js + int) \<times> 'w"
  Hubs_update :: "js \<Rightarrow> js \<Rightarrow> 'w \<Rightarrow> (js + js option) \<times> 'w"
  Hubs_findHubMessages :: "js \<Rightarrow> 'w \<Rightarrow> (js + js list) \<times> 'w"
  Messages_add :: "js \<Rightarrow> 'w \<Rightarrow> (js + js) \<times> 'w"

section \<open>hubs-router.js\<close>

text \<open>\<^verbatim>\<open>router.use((req, res, next) => { console.log(...); next(); })\<close>\<close>

definition hubs_router_use :: "'w handler" where
  "hubs_router_use r w = ([Advance], r, w)"

text \<open>The guard \<^verbatim>\<open>validateId\<close> (lines 169-185).\<close>

definition validateId :: "'w db \<Rightarrow> 'w handler" where
  "validateId D r w =
     (case Hubs_findById D (param r ''id'') w of
        (Inr (Some h), w') \<Rightarrow> ([Advance], r\<lparr>hub := Some h\<rparr>, w')
      | (Inr None, w') \<Rightarrow> ([Fail (message ''the id you sent was invalid'')], r, w')
      | (Inl error, w') \<Rightarrow> ([Fail (message ''some major jam...'')], r, w'))"

text \<open>The guard \<^verbatim>\<open>requireBody\<close> (lines 190-196).\<close>

definition requireBody :: "'w handler" where
  "requireBody r w =
     (if truthy (body r) \<and> length (Object_keys (body r)) > 0
      then ([Advance], r, w)
      else ([Fail (message ''You need to supply a body with this request'')], r, w))"

text \<open>\<^verbatim>\<open>router.get('/', ...)\<close> (lines 17-28).\<close>

definition get_hubs :: "'w db \<Rightarrow> 'w handler" where
  "get_hubs D r w =
     (case Hubs_find D (query r) w of
        (Inr hubs, w') \<Rightarrow> ([Write 200 (JArr hubs)], r, w')
      | (Inl error, w') \<Rightarrow> ([Write 500 (message ''Error retrieving the hubs'')], r, w'))"

text \<open>\<^verbatim>\<open>router.get('/:id', validateId, ...)\<close> (lines 47-51): responds with \<^verbatim>\<open>req.hub\<close>.\<close>

definition get_hub :: "'w handler" where
  "get_hub r w =
     ([Write 200 (case hub r of Some h \<Rightarrow> h | None \<Rightarrow> JUndefined)], r, w)"

text \<open>\<^verbatim>\<open>router.post('/', requireBody, ...)\<close> (lines 65-76).\<close>

definition post_hub :: "'w db \<Rightarrow> 'w handler" where
  "post_hub D r w =
     (case Hubs_add D (body r) w of
        (Inr h, w') \<Rightarrow> ([Write 201 h], r, w')
      | (Inl error, w') \<Rightarrow> ([Write 500 (message ''Error adding the hub'')], r, w'))"

text \<open>\<^verbatim>\<open>router.delete('/:id', validateId, ...)\<close> (lines 81-96).\<close>

definition delete_hub :: "'w db \<Rightarrow> 'w handler" where
  "delete_hub D r w =
     (case Hubs_remove D (param r ''id'') w of
        (Inr count, w') \<Rightarrow>
          (if count > 0 then ([Write 200 (message ''The hub has been nuked'')], r, w')
           else ([Write 404 (message ''The hub could not be found'')], r, w'))
      | (Inl error, w') \<Rightarrow> ([Write 500 (message ''Error removing the hub'')], r, w'))"

text \<open>\<^verbatim>\<open>router.put('/:id', validateId, requireBody, ...)\<close> (lines 102-117).\<close>

definition put_hub :: "'w db \<Rightarrow> 'w handler" where
  "put_hub D r w =
     (case Hubs_update D (param r ''id'') (body r) w of
        (Inr (Some h), w') \<Rightarrow> ([Write 200 h], r, w')
      | (Inr None, w') \<Rightarrow> ([Write 404 (message ''The hub could not be found'')], r, w')
      | (Inl error, w') \<Rightarrow> ([Write 500 (message ''Error updating the hub'')], r, w'))"

text \<open>\<^verbatim>\<open>router.get('/:id/messages', validateId, ...)\<close> (lines 121-133).\<close>

definition get_hub_messages :: "'w db \<Rightarrow> 'w handler" where
  "get_hub_messages D r w =
     (case Hubs_findHubMessages D (param r ''id'') w of
        (Inr messages, w') \<Rightarrow> ([Write 200 (JArr messages)], r, w')
      | (Inl error, w') \<Rightarrow>
          ([Write 500 (message ''Error getting the messages for the hub'')], r, w'))"

text \<open>
  \<^verbatim>\<open>router.post('/:id/messages', validateId, requireBody, ...)\<close> (lines 144-157).
  \<open>messageInfo\<close> is \<^verbatim>\<open>{ ...req.body, hub_id: req.params.id }\<close>: the body's own
  properties, then \<^verbatim>\<open>hub_id\<close> assigned (in place when the body has the key).
\<close>

definition messageInfo :: "req \<Rightarrow> js" where
  "messageInfo r = JObj (AList.update ''hub_id'' (param r ''id'') (own_entries (body r)))"

definition post_hub_message :: "'w db \<Rightarrow> 'w handler" where
  "post_hub_message D r w =
     (case Messages_add D (messageInfo r) w of
        (Inr m, w') \<Rightarrow> ([Write 210 m], r, w')
      | (Inl error, w') \<Rightarrow>
          ([Write 500 (message ''Error getting the messages for the hub'')], r, w'))"

section \<open>server.js\<close>

text \<open>\<^verbatim>\<open>methodLogger\<close> (lines 264-269): logs, then \<^verbatim>\<open>next()\<close>.\<close>

definition methodLogger :: "'w handler" where
  "methodLogger r w = ([Advance], r, w)"

text \<open>\<^verbatim>\<open>addName\<close> (lines 278-283).\<close>

definition addName :: "'w handler" where
  "addName r w = ([Advance], r\<lparr>name := Some ''sk''\<rparr>, w)"

text \<open>\<^verbatim>\<open>lockout\<close> (lines 288-290); its registration is commented out.\<close>

definition lockout :: "'w handler" where
  "lockout r w = ([Write 403 (message ''API locked out!'')], r, w)"

text \<open>\<^verbatim>\<open>gateKeeper\<close> (lines 298-309); \<open>seconds\<close> is what the clock reads.\<close>

definition gateKeeper :: "nat \<Rightarrow> 'w handler" where
  "gateKeeper seconds r w =
     (if seconds mod 3 = 0 then ([Write 403 (message ''I hate 3...'')], r, w)
      else ([Advance], r, w))"

text \<open>The error-handling middleware (lines 229-233): \<^verbatim>\<open>next(error)\<close>.\<close>

definition error_middleware :: "'w error_handler" where
  "error_middleware error r w = ([Fail error], r, w)"

text \<open>\<^verbatim>\<open>server.get('/', ...)\<close> (lines 246-255): \<^verbatim>\<open>res.send\<close> of the welcome page.\<close>

definition nameInsert :: "req \<Rightarrow> string" where
  "nameInsert r = (case name r of Some n \<Rightarrow> (if n \<noteq> [] then '' '' @ n else []) | None \<Rightarrow> [])"

definition get_root :: "'w handler" where
  "get_root r w =
     ([Write 200 (JStr ([CHR 0x0A] @ ''    <h2>Lambda Hubs API</h2>'' @ [CHR 0x0A] @
        ''    <p>Welcome'' @ nameInsert r @ '' to the Lambda Hubs API</p>'' @ [CHR 0x0A] @
        ''    ''))], r, w)"

text \<open>
  \<^verbatim>\<open>express.json()\<close>, \<^verbatim>\<open>helmet()\<close> and \<^verbatim>\<open>morgan('dev')\<close> are third-party
  middleware: body decoding, response headers and access logging. The request of the
  model already carries the decoded body, so each of them only passes the request on.
\<close>

definition pass_on :: "'w handler" where
  "pass_on r w = ([Advance], r, w)"

section \<open>Paths and the route table\<close>

text \<open>
  The framework that matches paths, keeps the route table and runs the handlers
  (Express) is not part of the sources. This section and the section on the dispatcher
  model it from the spec.
\<close>

text \<open>
  Modelled from the spec: the ordered segments of a request path (section 4.1), the
  framework's own splitting being absent. A path is cut at its slashes and the empty
  pieces are dropped, so \<^verbatim>\<open>/\<close> has no segment.
\<close>

fun pieces :: "string \<Rightarrow> string list" where
  "pieces [] = [[]]"
| "pieces (c # cs) =
     (if c = CHR ''/'' then [] # pieces cs
      else (case pieces cs of p # ps \<Rightarrow> (c # p) # ps | [] \<Rightarrow> [[c]]))"

definition segments :: "string \<Rightarrow> string list" where
  "segments s = filter (\<lambda>p. p \<noteq> []) (pieces s)"

text \<open>
  Modelled from the spec: a pattern segment (sections 3 and 4.1), literal text or a
  named parameter written \<^verbatim>\<open>:name\<close>; the framework's pattern parser is absent.
\<close>

datatype segment = Lit string | Param string

fun parse_segment :: "string \<Rightarrow> segment" where
  "parse_segment (c # cs) = (if c = CHR '':'' then Param cs else Lit (c # cs))"
| "parse_segment [] = Lit []"

definition parse_pattern :: "string \<Rightarrow> segment list" where
  "parse_pattern s = map parse_segment (segments s)"

text \<open>
  Modelled from the spec: the Path Matcher (section 4.1), the framework's matcher being
  absent. Matching requires the same number of segments, equal literal segments at
  each position, and a non-empty segment at each parameter; the result binds each
  parameter name to the text of its segment.
\<close>

fun match_pattern :: "segment list \<Rightarrow> string list \<Rightarrow> (string \<times> string) list option" where
  "match_pattern [] [] = Some []"
| "match_pattern (Lit l # ps) (s # ss) = (if s = l then match_pattern ps ss else None)"
| "match_pattern (Param n # ps) (s # ss) =
     (if s \<noteq> [] then map_option (\<lambda>bs. (n, s) # bs) (match_pattern ps ss) else None)"
| "match_pattern _ _ = None"

text \<open>
  Modelled from the spec: eligibility of a scope (section 4.3), absent with the
  framework. A scope contains a path when its segments are a prefix of the path's.
\<close>

fun within_scope :: "string list \<Rightarrow> string list \<Rightarrow> bool" where
  "within_scope [] p = True"
| "within_scope (s # ss) (q # qs) = (s = q \<and> within_scope ss qs)"
| "within_scope (s # ss) [] = False"

text \<open>Modelled from the spec: the verbs of a route registration (section 6).\<close>

datatype verb = GET | POST | PUT | DELETE

text \<open>
  Modelled from the spec: an entry of the flattened sequence (sections 3 and 4.2), the
  framework's route table being absent. An entry is a Normal handler registered with
  \<^verbatim>\<open>use\<close> under a scope, a route (verb, pattern, handler chain), or an error handler
  under a scope. Each handler carries the name it has in the sources.
\<close>

datatype 'w entry =
    Use "string list" string "'w handler"
  | Route verb "segment list" "(string \<times> 'w handler) list"
  | ErrorHandler "string list" string "'w error_handler"

text \<open>
  Modelled from the spec: Mount/Compose (section 4.4), the framework's \<^verbatim>\<open>use\<close> of a
  router under a path being absent. Mounting a child router under a prefix rewrites
  every pattern and scope of the child.
\<close>

fun prefix_entry :: "string list \<Rightarrow> 'w entry \<Rightarrow> 'w entry" where
  "prefix_entry pre (Use scope n h) = Use (pre @ scope) n h"
| "prefix_entry pre (Route v pat chain) = Route v (map Lit pre @ pat) chain"
| "prefix_entry pre (ErrorHandler scope n h) = ErrorHandler (pre @ scope) n h"

definition mount :: "string \<Rightarrow> 'w entry list \<Rightarrow> 'w entry list" where
  "mount path child = map (prefix_entry (segments path)) child"

section \<open>The registrations of the application\<close>

text \<open>\<^verbatim>\<open>hubs-router.js\<close>, in registration order.\<close>

definition hubsRouter :: "'w db \<Rightarrow> 'w entry list" where
  "hubsRouter D =
     [Use [] ''router.use'' hubs_router_use,
      Route GET (parse_pattern ''/'') [(''get /'', get_hubs D)],
      Route GET (parse_pattern ''/:id'') [(''validateId'', validateId D), (''get /:id'', get_hub)],
      Route POST (parse_pattern ''/'') [(''requireBody'', requireBody), (''post /'', post_hub D)],
      Route DELETE (parse_pattern ''/:id'')
        [(''validateId'', validateId D), (''delete /:id'', delete_hub D)],
      Route PUT (parse_pattern ''/:id'')
        [(''validateId'', validateId D), (''requireBody'', requireBody), (''put /:id'', put_hub D)],
      Route GET (parse_pattern ''/:id/messages'')
        [(''validateId'', validateId D), (''get /:id/messages'', get_hub_messages D)],
      Route POST (parse_pattern ''/:id/messages'')
        [(''validateId'', validateId D), (''requireBody'', requireBody),
         (''post /:id/messages'', post_hub_message D)]]"

text \<open>\<^verbatim>\<open>server.js\<close>, in registration order (\<^verbatim>\<open>lockout\<close> is not registered).\<close>

definition server :: "'w db \<Rightarrow> nat \<Rightarrow> 'w entry list" where
  "server D seconds =
     [Use [] ''methodLogger'' methodLogger,
      Use [] ''express.json'' pass_on]
     @ mount ''/api/hubs'' (hubsRouter D) @
     [Use [] ''helmet'' pass_on,
      Use [] ''addName'' addName,
      Use [] ''morgan'' pass_on,
      Use [] ''gateKeeper'' (gateKeeper seconds),
      ErrorHandler [] ''error middleware'' error_middleware,
      Route GET (parse_pattern ''/'') [(''server.get /'', get_root)]]"

section \<open>The dispatcher\<close>

text \<open>
  Modelled from the spec: the states of the Dispatcher (section 4.2), the two
  violations of the dispatch invariant (section 7) and the events of a dispatch.
  The framework that runs the middleware chain is not part of the sources;
  \<^verbatim>\<open>server.js\<close> describes its built-in error handler in the comment before the error
  middleware (lines 212-225).
\<close>

datatype dstate = NORMAL_DISPATCH | ERROR_DISPATCH js | TERMINATED

datatype violation = DoubleWrite nat js | Deadlock

datatype event = Invoked string | Wrote nat js | DispatchInvariantViolation violation

text \<open>
  Modelled from the spec: the state of one request in the absent framework (sections
  3 and 4.2): the state of the machine, the Response Sink (\<open>None\<close>
  until written), the log of what the dispatcher did (oldest first), whether the
  handler now executing has signalled, the request context and the persistence state.
\<close>

record 'w disp =
  state :: dstate
  sink :: "(nat \<times> js) option"
  log :: "event list"
  signalled :: bool
  ctx :: req
  store :: 'w

text \<open>
  Modelled from the spec: a write on the Response Sink (sections 3 and 4.2), absent
  with the framework. The first write fills the sink and terminates dispatch; a later
  attempt is reported as a violation and the sink keeps the first response.
\<close>

definition write_response :: "nat \<Rightarrow> js \<Rightarrow> 'w disp \<Rightarrow> 'w disp" where
  "write_response s b d =
     (case sink d of
        None \<Rightarrow> d\<lparr>state := TERMINATED, sink := Some (s, b), log := log d @ [Wrote s b],
                   signalled := True\<rparr>
      | Some first \<Rightarrow> d\<lparr>log := log d @ [DispatchInvariantViolation (DoubleWrite s b)]\<rparr>)"

text \<open>
  Modelled from the spec: the dispatcher receiving a signal of the handler now
  executing (section 4.2), absent with the framework. The handler's first
  continuation signal decides where dispatch goes; after a write, or after it has
  signalled, advance and fail change nothing.
\<close>

fun receive :: "signal \<Rightarrow> 'w disp \<Rightarrow> 'w disp" where
  "receive Advance d =
     (if state d = TERMINATED \<or> signalled d then d
      else d\<lparr>state := NORMAL_DISPATCH, signalled := True\<rparr>)"
| "receive (Fail v) d =
     (if state d = TERMINATED \<or> signalled d then d
      else d\<lparr>state := ERROR_DISPATCH v, signalled := True\<rparr>)"
| "receive (Write s b) d = write_response s b d"

text \<open>
  Modelled from the spec: the guard against a request that would end with no response
  (sections 4.2 and 7: the defect is logged and a 500 is written) and the built-in
  fallback error handler, which writes a 500 carrying the failure (section 4.2); both
  are the absent framework's.
\<close>

definition deadlock :: "'w disp \<Rightarrow> 'w disp" where
  "deadlock d =
     write_response 500 (message ''no response was written'')
       (d\<lparr>log := log d @ [DispatchInvariantViolation Deadlock]\<rparr>)"

definition fallback :: "js \<Rightarrow> 'w disp \<Rightarrow> 'w disp" where
  "fallback v d = write_response 500 v d"

text \<open>
  Modelled from the spec: the dispatcher running one handler (section 4.2), absent
  with the framework. The invocation is logged, the handler's signals are received in
  order, and a handler that gave no signal at all is treated as the deadlock.
\<close>

definition settle :: "string \<Rightarrow> signal list \<times> req \<times> 'w \<Rightarrow> 'w disp \<Rightarrow> 'w disp" where
  "settle n out d =
     (case out of (sigs, r, w) \<Rightarrow>
        (let d' = fold receive sigs
                    (d\<lparr>log := log d @ [Invoked n], signalled := False, ctx := r, store := w\<rparr>)
         in if signalled d' then d' else deadlock d'))"

definition invoke :: "string \<Rightarrow> 'w handler \<Rightarrow> 'w disp \<Rightarrow> 'w disp" where
  "invoke n h d = settle n (h (ctx d) (store d)) d"

definition invoke_error :: "string \<Rightarrow> 'w error_handler \<Rightarrow> js \<Rightarrow> 'w disp \<Rightarrow> 'w disp" where
  "invoke_error n h v d = settle n (h v (ctx d) (store d)) d"

text \<open>
  Modelled from the spec: the handler chain of a matched route (sections 3 and 4.2),
  run by the absent framework in registration order while dispatch stays on the
  normal track.
\<close>

fun run_chain :: "(string \<times> 'w handler) list \<Rightarrow> 'w disp \<Rightarrow> 'w disp" where
  "run_chain [] d = d"
| "run_chain ((n, h) # hs) d =
     (if state d = NORMAL_DISPATCH then run_chain hs (invoke n h d) else d)"

text \<open>
  Modelled from the spec: the Dispatcher and the Error Router at one entry of the
  flattened sequence (sections 4.2 and 4.3), absent with the framework, for a request
  with verb \<open>m\<close> and path \<open>p\<close>.
  On the normal track error handlers are passed over; on the error track only an
  error handler whose scope contains the path is invoked; after termination nothing is.
\<close>

definition visit :: "verb \<Rightarrow> string list \<Rightarrow> 'w entry \<Rightarrow> 'w disp \<Rightarrow> 'w disp" where
  "visit m p e d =
     (case state d of
        TERMINATED \<Rightarrow> d
      | NORMAL_DISPATCH \<Rightarrow>
          (case e of
             Use scope n h \<Rightarrow> if within_scope scope p then invoke n h d else d
           | Route v pat chain \<Rightarrow>
               (if v = m then
                  (case match_pattern pat p of
                     Some binds \<Rightarrow> run_chain chain (d\<lparr>ctx := (ctx d)\<lparr>params := binds\<rparr>\<rparr>)
                   | None \<Rightarrow> d)
                else d)
           | ErrorHandler scope n h \<Rightarrow> d)
      | ERROR_DISPATCH v \<Rightarrow>
          (case e of
             ErrorHandler scope n h \<Rightarrow> if within_scope scope p then invoke_error n h v d else d
           | Use scope n h \<Rightarrow> d
           | Route v pat chain \<Rightarrow> d))"

text \<open>
  Modelled from the spec: the end of the flattened sequence (section 4.2), where the
  absent framework applies the deadlock guard or the built-in fallback; and the
  dispatch of a request over the whole sequence.
\<close>

definition finish :: "'w disp \<Rightarrow> 'w disp" where
  "finish d =
     (case state d of
        NORMAL_DISPATCH \<Rightarrow> deadlock d
      | ERROR_DISPATCH v \<Rightarrow> fallback v d
      | TERMINATED \<Rightarrow> d)"

definition dispatch :: "'w entry list \<Rightarrow> verb \<Rightarrow> string list \<Rightarrow> 'w disp \<Rightarrow> 'w disp" where
  "dispatch es m p d = finish (fold (visit m p) es d)"

text \<open>
  Modelled from the spec: the initial state of the Dispatcher (section 4.2), absent
  with the framework: normal track, nothing written, nothing logged; and serving a
  request given by its verb and path text.
\<close>

definition arrive :: "req \<Rightarrow> 'w \<Rightarrow> 'w disp" where
  "arrive r w =
     \<lparr>state = NORMAL_DISPATCH, sink = None, log = [], signalled = False, ctx = r, store = w\<rparr>"

definition serve :: "'w entry list \<Rightarrow> verb \<Rightarrow> string \<Rightarrow> req \<Rightarrow> 'w \<Rightarrow> 'w disp" where
  "serve es m path r w = dispatch es m (segments path) (arrive r w)"

text \<open>A request with no parameters bound yet and nothing attached.\<close>

definition request :: "js \<Rightarrow> js \<Rightarrow> req" where
  "request q b = \<lparr>params = [], query = q, body = b, hub = None, name = None\<rparr>"

section \<open>A persistence layer in memory\<close>

text \<open>
  Modelled from the spec: the state of the persistence collaborator of section 6,
  whose modules \<^verbatim>\<open>hubs-model.js\<close> and \<^verbatim>\<open>messages-model.js\<close> are not part of the
  sources. Hubs are kept by the text of their identifier.
\<close>

record store =
  hub_rows :: "(string \<times> js) list"
  message_rows :: "js list"
  next_id :: nat

text \<open>
  Modelled from the spec: the operations of the persistence collaborator (section 6),
  absent with \<^verbatim>\<open>hubs-model.js\<close> and \<^verbatim>\<open>messages-model.js\<close>: \<open>find\<close> returns the
  records, \<open>findById\<close> a record or absent, \<open>add\<close> the stored record with a generated
  identifier, \<open>update\<close> the updated record or absent, \<open>remove\<close> the count removed,
  \<open>findHubMessages\<close> the related records. In memory, none of them rejects.
\<close>

definition with_id :: "nat \<Rightarrow> js \<Rightarrow> js" where
  "with_id n v = JObj (AList.update ''id'' (JNum (int n)) (own_entries v))"

definition memory_db :: "store db" where
  "memory_db =
     \<lparr>Hubs_find = (\<lambda>q s. (Inr (map snd (hub_rows s)), s)),
      Hubs_findById = (\<lambda>i s.
         (Inr (case i of JStr k \<Rightarrow> map_of (hub_rows s) k | _ \<Rightarrow> None), s)),
      Hubs_add = (\<lambda>v s. (Inr (with_id (next_id s) v),
         s\<lparr>hub_rows := hub_rows s @ [(show_nat (next_id s), with_id (next_id s) v)],
           next_id := Suc (next_id s)\<rparr>)),
      Hubs_remove = (\<lambda>i s.
         (case i of
            JStr k \<Rightarrow>
              (case map_of (hub_rows s) k of
                 Some found \<Rightarrow> (Inr 1, s\<lparr>hub_rows := AList.delete k (hub_rows s)\<rparr>)
               | None \<Rightarrow> (Inr 0, s))
          | _ \<Rightarrow> (Inr 0, s))),
      Hubs_update = (\<lambda>i patch s.
         (case i of
            JStr k \<Rightarrow>
              (case map_of (hub_rows s) k of
                 Some old \<Rightarrow>
                   (Inr (Some (JObj (own_entries patch @ own_entries old))),
                    s\<lparr>hub_rows :=
                        AList.update k (JObj (own_entries patch @ own_entries old)) (hub_rows s)\<rparr>)
               | None \<Rightarrow> (Inr None, s))
          | _ \<Rightarrow> (Inr None, s))),
      Hubs_findHubMessages = (\<lambda>i s.
         (Inr (filter (\<lambda>m. map_of (own_entries m) ''hub_id'' = Some i) (message_rows s)), s)),
      Messages_add = (\<lambda>v s. (Inr (with_id (next_id s) v),
         s\<lparr>message_rows := message_rows s @ [with_id (next_id s) v],
           next_id := Suc (next_id s)\<rparr>))\<rparr>"

text \<open>A persistence layer whose every operation rejects with the same fault.\<close>

definition broken_db :: "'w db" where
  "broken_db =
     \<lparr>Hubs_find = (\<lambda>q s. (Inl (JStr ''disk I/O error''), s)),
      Hubs_findById = (\<lambda>i s. (Inl (JStr ''disk I/O error''), s)),
      Hubs_add = (\<lambda>v s. (Inl (JStr ''disk I/O error''), s)),
      Hubs_remove = (\<lambda>i s. (Inl (JStr ''disk I/O error''), s)),
      Hubs_update = (\<lambda>i patch s. (Inl (JStr ''disk I/O error''), s)),
      Hubs_findHubMessages = (\<lambda>i s. (Inl (JStr ''disk I/O error''), s)),
      Messages_add = (\<lambda>v s. (Inl (JStr ''disk I/O error''), s))\<rparr>"

text \<open>A store that holds the hub with identifier 5 and nothing else.\<close>

definition hub5 :: js where
  "hub5 = JObj [(''id'', JNum 5), (''name'', JStr ''Acme'')]"

definition store5 :: store where
  "store5 = \<lparr>hub_rows = [(''5'', hub5)], message_rows = [], next_id = 6\<rparr>"

section \<open>What the dispatcher's log records\<close>

fun is_Wrote :: "event \<Rightarrow> bool" where
  "is_Wrote (Wrote s b) = True"
| "is_Wrote _ = False"

fun is_Invoked :: "event \<Rightarrow> bool" where
  "is_Invoked (Invoked n) = True"
| "is_Invoked _ = False"

text \<open>The part of a log from the first accepted write on.\<close>

definition after_write :: "event list \<Rightarrow> event list" where
  "after_write evs = dropWhile (\<lambda>e. \<not> is_Wrote e) evs"

text \<open>
  The sink, the state and the log agree: nothing is written while dispatch is active;
  once the sink is filled dispatch is terminated, the log holds exactly that one
  accepted write, and no handler was invoked after it.
\<close>

definition consistent :: "'w disp \<Rightarrow> bool" where
  "consistent d =
     ((case sink d of
         None \<Rightarrow> state d \<noteq> TERMINATED \<and> filter is_Wrote (log d) = []
       | Some (s, b) \<Rightarrow> state d = TERMINATED \<and> filter is_Wrote (log d) = [Wrote s b])
      \<and> \<not> list_ex is_Invoked (after_write (log d)))"

text \<open>
  What the log gains from the signals a handler gives after its accepted write: each
  further write attempt is reported, advance and fail leave no trace.
\<close>

fun late_writes :: "signal list \<Rightarrow> event list" where
  "late_writes [] = []"
| "late_writes (Write s b # gs) = DispatchInvariantViolation (DoubleWrite s b) # late_writes gs"
| "late_writes (g # gs) = late_writes gs"

text \<open>
  An error handler that does not consume a failure: whatever it is given, its first
  signal is fail and it never writes. \<open>passes_on\<close>: the failure it signals is the one
  it was given.
\<close>

definition resignals :: "'w error_handler \<Rightarrow> bool" where
  "resignals h =
     (\<forall>v r w. \<exists>u rest r' w'. h v r w = (Fail u # rest, r', w') \<and> \<not> list_ex is_Write rest)"

definition passes_on :: "'w error_handler \<Rightarrow> bool" where
  "passes_on h =
     (\<forall>v r w. \<exists>rest r' w'. h v r w = (Fail v # rest, r', w') \<and> \<not> list_ex is_Write rest)"

text \<open>
  The matching rule of section 4.1 read position by position: a literal segment needs
  the same text, a parameter any non-empty segment; the bindings are the parameters
  paired with their segments.
\<close>

fun segment_ok :: "segment \<Rightarrow> string \<Rightarrow> bool" where
  "segment_ok (Lit l) s = (s = l)"
| "segment_ok (Param n) s = (s \<noteq> [])"

fun bindings :: "segment list \<Rightarrow> string list \<Rightarrow> (string \<times> string) list" where
  "bindings (Param n # ps) (s # ss) = (n, s) # bindings ps ss"
| "bindings (Lit l # ps) (s # ss) = bindings ps ss"
| "bindings _ _ = []"

text \<open>The error handlers of a sequence, in registration order.\<close>

fun error_handlers :: "'w entry list \<Rightarrow> (string list \<times> string \<times> 'w error_handler) list" where
  "error_handlers [] = []"
| "error_handlers (ErrorHandler scope n h # es) = (scope, n, h) # error_handlers es"
| "error_handlers (e # es) = error_handlers es"

text \<open>
  A handler that breaks the contract of a handler: it writes a response, then
  advances, then writes again.
\<close>

definition writes_twice :: "'w handler" where
  "writes_twice r w =
     ([Write 200 (message ''first''), Advance, Write 201 (message ''second'')], r, w)"

section \<open>Properties of the guards and the terminal handlers\<close>

text \<open>
  C2. The guard \<open>validateId\<close> looks the hub up with \<open>Hubs.findById\<close> at the path
  parameter \<open>id\<close>. When a record is found it attaches it as \<open>req.hub\<close> and advances, and
  the terminal handler of \<open>GET /:id\<close>, given that request, responds 200 with exactly
  that record. When the record is absent, or the lookup rejects, the guard signals
  fail with a message. The guard never writes a response. The route \<open>GET /:id\<close> is
  registered with the guard followed by that terminal handler.
\<close>

theorem validateId_attaches_hub_or_fails:
  "(Hubs_findById D (param r ''id'') w = (Inr (Some h), w') \<longrightarrow>
      validateId D r w = ([Advance], r\<lparr>hub := Some h\<rparr>, w') \<and>
      get_hub (r\<lparr>hub := Some h\<rparr>) w' = ([Write 200 h], r\<lparr>hub := Some h\<rparr>, w'))
   \<and> (Hubs_findById D (param r ''id'') w = (Inr None, w') \<longrightarrow>
      validateId D r w = ([Fail (message ''the id you sent was invalid'')], r, w'))
   \<and> (Hubs_findById D (param r ''id'') w = (Inl e, w') \<longrightarrow>
      validateId D r w = ([Fail (message ''some major jam...'')], r, w'))
   \<and> \<not> list_ex is_Write (fst (validateId D r w))
   \<and> Route GET [Param ''id''] [(''validateId'', validateId D), (''get /:id'', get_hub)]
       \<in> set (hubsRouter D)"
  by (auto simp: validateId_def get_hub_def hubsRouter_def parse_pattern_def segments_def
      split: prod.splits sum.splits option.splits)

theorem validateId_attaches_hub_or_fails_witness:
  "validateId memory_db ((request (JObj []) JUndefined)\<lparr>params := [(''id'', ''5'')]\<rparr>) store5 =
     ([Advance], (request (JObj []) JUndefined)\<lparr>params := [(''id'', ''5'')], hub := Some hub5\<rparr>,
      store5)
   \<and> get_hub ((request (JObj []) JUndefined)\<lparr>params := [(''id'', ''5'')], hub := Some hub5\<rparr>)
       store5 =
     ([Write 200 hub5],
      (request (JObj []) JUndefined)\<lparr>params := [(''id'', ''5'')], hub := Some hub5\<rparr>, store5)
   \<and> validateId memory_db ((request (JObj []) JUndefined)\<lparr>params := [(''id'', ''999'')]\<rparr>) store5 =
     ([Fail (message ''the id you sent was invalid'')],
      (request (JObj []) JUndefined)\<lparr>params := [(''id'', ''999'')]\<rparr>, store5)
   \<and> validateId broken_db ((request (JObj []) JUndefined)\<lparr>params := [(''id'', ''5'')]\<rparr>) store5 =
     ([Fail (message ''some major jam...'')],
      (request (JObj []) JUndefined)\<lparr>params := [(''id'', ''5'')]\<rparr>, store5)"
proof -
  let ?r5 = "(request (JObj []) JUndefined)\<lparr>params := [(''id'', ''5'')]\<rparr>"
  let ?r999 = "(request (JObj []) JUndefined)\<lparr>params := [(''id'', ''999'')]\<rparr>"
  have found: "Hubs_findById memory_db (param ?r5 ''id'') store5 = (Inr (Some hub5), store5)"
    by (simp add: memory_db_def param_def request_def store5_def)
  have absent: "Hubs_findById memory_db (param ?r999 ''id'') store5 = (Inr None, store5)"
    by (simp add: memory_db_def param_def request_def store5_def)
  have broken: "Hubs_findById broken_db (param ?r5 ''id'') store5 =
      (Inl (JStr ''disk I/O error''), store5)"
    by (simp add: broken_db_def)
  show ?thesis
    using validateId_attaches_hub_or_fails [of memory_db ?r5 store5 hub5 store5]
      validateId_attaches_hub_or_fails [of memory_db ?r999 store5 _ store5]
      validateId_attaches_hub_or_fails [of broken_db ?r5 store5 _ store5 "JStr ''disk I/O error''"]
      found absent broken
    by simp
qed

text \<open>
  C5 (as stated). A terminal handler turns a rejected persistence call into a fail
  signal. It does not: with a persistence layer that rejects, the handler of
  \<open>GET /\<close> gives one signal, a write of status 500, and no fail signal.
\<close>

theorem collaborator_error_is_not_signalled:
  "fst (get_hubs broken_db (request (JObj []) JUndefined) store5) =
     [Write 500 (message ''Error retrieving the hubs'')]
   \<and> \<not> list_ex is_Fail (fst (get_hubs broken_db (request (JObj []) JUndefined) store5))"
  by (simp add: get_hubs_def broken_db_def)

text \<open>
  C5 (amended). Whenever the persistence call of a terminal handler rejects, with
  whatever error, the handler catches it and itself writes the response: status 500
  and a message fixed for the route. It gives no fail signal and the error does not
  escape. This holds for the six terminal handlers that call the persistence layer
  (\<open>GET /\<close>, \<open>POST /\<close>, \<open>DELETE /:id\<close>, \<open>PUT /:id\<close>, \<open>GET /:id/messages\<close>,
  \<open>POST /:id/messages\<close>).
\<close>

theorem collaborator_error_answered_with_500:
  "(Hubs_find D (query r) w = (Inl e, w') \<longrightarrow>
      get_hubs D r w = ([Write 500 (message ''Error retrieving the hubs'')], r, w'))
   \<and> (Hubs_add D (body r) w = (Inl e, w') \<longrightarrow>
      post_hub D r w = ([Write 500 (message ''Error adding the hub'')], r, w'))
   \<and> (Hubs_remove D (param r ''id'') w = (Inl e, w') \<longrightarrow>
      delete_hub D r w = ([Write 500 (message ''Error removing the hub'')], r, w'))
   \<and> (Hubs_update D (param r ''id'') (body r) w = (Inl e, w') \<longrightarrow>
      put_hub D r w = ([Write 500 (message ''Error updating the hub'')], r, w'))
   \<and> (Hubs_findHubMessages D (param r ''id'') w = (Inl e, w') \<longrightarrow>
      get_hub_messages D r w =
        ([Write 500 (message ''Error getting the messages for the hub'')], r, w'))
   \<and> (Messages_add D (messageInfo r) w = (Inl e, w') \<longrightarrow>
      post_hub_message D r w =
        ([Write 500 (message ''Error getting the messages for the hub'')], r, w'))"
  by (simp add: get_hubs_def post_hub_def delete_hub_def put_hub_def get_hub_messages_def
      post_hub_message_def)

theorem collaborator_error_answered_with_500_witness:
  "get_hubs broken_db (request (JObj []) (JObj [(''name'', JStr ''Acme'')])) store5 =
     ([Write 500 (message ''Error retrieving the hubs'')],
      request (JObj []) (JObj [(''name'', JStr ''Acme'')]), store5)
   \<and> post_hub broken_db (request (JObj []) (JObj [(''name'', JStr ''Acme'')])) store5 =
     ([Write 500 (message ''Error adding the hub'')],
      request (JObj []) (JObj [(''name'', JStr ''Acme'')]), store5)
   \<and> delete_hub broken_db (request (JObj []) (JObj [(''name'', JStr ''Acme'')])) store5 =
     ([Write 500 (message ''Error removing the hub'')],
      request (JObj []) (JObj [(''name'', JStr ''Acme'')]), store5)
   \<and> put_hub broken_db (request (JObj []) (JObj [(''name'', JStr ''Acme'')])) store5 =
     ([Write 500 (message ''Error updating the hub'')],
      request (JObj []) (JObj [(''name'', JStr ''Acme'')]), store5)
   \<and> get_hub_messages broken_db (request (JObj []) (JObj [(''name'', JStr ''Acme'')])) store5 =
     ([Write 500 (message ''Error getting the messages for the hub'')],
      request (JObj []) (JObj [(''name'', JStr ''Acme'')]), store5)
   \<and> post_hub_message broken_db (request (JObj []) (JObj [(''name'', JStr ''Acme'')])) store5 =
     ([Write 500 (message ''Error getting the messages for the hub'')],
      request (JObj []) (JObj [(''name'', JStr ''Acme'')]), store5)"
  using collaborator_error_answered_with_500 [of broken_db "request (JObj []) (JObj [(''name'', JStr ''Acme'')])" store5
      "JStr ''disk I/O error''" store5]
  by (simp add: broken_db_def)

text \<open>
  C10. The handler of \<open>POST /:id/messages\<close> calls \<open>Messages.add\<close> with \<open>messageInfo\<close> and
  with nothing else: the persistence state it leaves is the one that call leaves, its
  response is the record that call resolves with, and it consults \<open>Messages.add\<close> at
  that record only. \<open>messageInfo\<close> is an object whose \<open>hub_id\<close> is the path parameter
  \<open>id\<close>, whatever the body holds under that key.
\<close>

theorem messageInfo_hub_id_is_path_id:
  "(\<exists>kvs. messageInfo r = JObj kvs \<and> map_of kvs ''hub_id'' = Some (param r ''id''))
   \<and> (map_of (params r) ''id'' = Some i \<longrightarrow>
        map_of (own_entries (messageInfo r)) ''hub_id'' = Some (JStr i))
   \<and> (Messages_add D (messageInfo r) w = Messages_add D' (messageInfo r) w \<longrightarrow>
        post_hub_message D r w = post_hub_message D' r w)
   \<and> snd (snd (post_hub_message D r w)) = snd (Messages_add D (messageInfo r) w)
   \<and> (Messages_add D (messageInfo r) w = (Inr m, w') \<longrightarrow>
        post_hub_message D r w = ([Write 210 m], r, w'))"
proof -
  have info: "(\<exists>kvs. messageInfo r = JObj kvs \<and> map_of kvs ''hub_id'' = Some (param r ''id''))
   \<and> (map_of (params r) ''id'' = Some i \<longrightarrow>
        map_of (own_entries (messageInfo r)) ''hub_id'' = Some (JStr i))
   \<and> (Messages_add D (messageInfo r) w = Messages_add D' (messageInfo r) w \<longrightarrow>
        post_hub_message D r w = post_hub_message D' r w)"
    by (simp add: messageInfo_def update_conv' param_def post_hub_message_def)
  have passed: "snd (snd (post_hub_message D r w)) = snd (Messages_add D (messageInfo r) w)"
    by (simp add: post_hub_message_def split: prod.splits sum.splits)
  have answered: "Messages_add D (messageInfo r) w = (Inr m, w') \<longrightarrow>
        post_hub_message D r w = ([Write 210 m], r, w')"
    by (simp add: post_hub_message_def)
  show ?thesis using info passed answered by blast
qed

theorem messageInfo_hub_id_is_path_id_witness:
  "map_of (own_entries (messageInfo
      ((request (JObj []) (JObj [(''hub_id'', JStr ''77''), (''text'', JStr ''hi'')]))
         \<lparr>params := [(''id'', ''5'')]\<rparr>))) ''hub_id'' = Some (JStr ''5'')
   \<and> post_hub_message memory_db
      ((request (JObj []) (JObj [(''hub_id'', JStr ''77''), (''text'', JStr ''hi'')]))
         \<lparr>params := [(''id'', ''5'')]\<rparr>) store5 =
     ([Write 210 (JObj [(''hub_id'', JStr ''5''), (''text'', JStr ''hi''), (''id'', JNum 6)])],
      (request (JObj []) (JObj [(''hub_id'', JStr ''77''), (''text'', JStr ''hi'')]))
         \<lparr>params := [(''id'', ''5'')]\<rparr>,
      store5\<lparr>message_rows :=
          [JObj [(''hub_id'', JStr ''5''), (''text'', JStr ''hi''), (''id'', JNum 6)]],
        next_id := 7\<rparr>)
   \<and> snd (snd (post_hub_message memory_db
      ((request (JObj []) (JObj [(''hub_id'', JStr ''77''), (''text'', JStr ''hi'')]))
         \<lparr>params := [(''id'', ''5'')]\<rparr>) store5)) =
     store5\<lparr>message_rows :=
          [JObj [(''hub_id'', JStr ''5''), (''text'', JStr ''hi''), (''id'', JNum 6)]],
        next_id := 7\<rparr>"
proof -
  let ?r = "(request (JObj []) (JObj [(''hub_id'', JStr ''77''), (''text'', JStr ''hi'')]))
         \<lparr>params := [(''id'', ''5'')]\<rparr>"
  let ?m = "JObj [(''hub_id'', JStr ''5''), (''text'', JStr ''hi''), (''id'', JNum 6)]"
  let ?w = "store5\<lparr>message_rows := [?m], next_id := 7\<rparr>"
  have par: "map_of (params ?r) ''id'' = Some ''5''" by simp
  have add: "Messages_add memory_db (messageInfo ?r) store5 = (Inr ?m, ?w)"
    by (simp add: memory_db_def messageInfo_def param_def request_def store5_def with_id_def)
  note T = messageInfo_hub_id_is_path_id [where r = ?r and i = "''5''" and D = memory_db
      and D' = memory_db and w = store5 and m = ?m and w' = ?w]
  have one: "map_of (own_entries (messageInfo ?r)) ''hub_id'' = Some (JStr ''5'')"
    using T par by blast
  have two: "post_hub_message memory_db ?r store5 = ([Write 210 ?m], ?r, ?w)"
    using T add by blast
  have three: "snd (snd (post_hub_message memory_db ?r store5)) = ?w"
    using T add by simp
  show ?thesis using one two three by blast
qed

section \<open>Running the dispatcher on the application\<close>

text \<open>
  The flattened sequence of \<open>server\<close> written out, and the steps of the dispatcher on
  a state given field by field: the equations with which a request is traced.
\<close>

lemma segments_api_hubs: "segments ''/api/hubs'' = [''api'', ''hubs'']"
  by (simp add: segments_def)

lemma patterns:
  "parse_pattern ''/'' = []"
  "parse_pattern ''/:id'' = [Param ''id'']"
  "parse_pattern ''/:id/messages'' = [Param ''id'', Lit ''messages'']"
  by (simp_all add: parse_pattern_def segments_def)

lemma server_entries: "server D seconds =
     [Use [] ''methodLogger'' methodLogger,
      Use [] ''express.json'' pass_on,
      Use [''api'', ''hubs''] ''router.use'' hubs_router_use,
      Route GET [Lit ''api'', Lit ''hubs''] [(''get /'', get_hubs D)],
      Route GET [Lit ''api'', Lit ''hubs'', Param ''id'']
        [(''validateId'', validateId D), (''get /:id'', get_hub)],
      Route POST [Lit ''api'', Lit ''hubs''] [(''requireBody'', requireBody), (''post /'', post_hub D)],
      Route DELETE [Lit ''api'', Lit ''hubs'', Param ''id'']
        [(''validateId'', validateId D), (''delete /:id'', delete_hub D)],
      Route PUT [Lit ''api'', Lit ''hubs'', Param ''id'']
        [(''validateId'', validateId D), (''requireBody'', requireBody), (''put /:id'', put_hub D)],
      Route GET [Lit ''api'', Lit ''hubs'', Param ''id'', Lit ''messages'']
        [(''validateId'', validateId D), (''get /:id/messages'', get_hub_messages D)],
      Route POST [Lit ''api'', Lit ''hubs'', Param ''id'', Lit ''messages'']
        [(''validateId'', validateId D), (''requireBody'', requireBody),
         (''post /:id/messages'', post_hub_message D)],
      Use [] ''helmet'' pass_on,
      Use [] ''addName'' addName,
      Use [] ''morgan'' pass_on,
      Use [] ''gateKeeper'' (gateKeeper seconds),
      ErrorHandler [] ''error middleware'' error_middleware,
      Route GET [] [(''server.get /'', get_root)]]"
  by (simp add: server_def hubsRouter_def mount_def patterns segments_api_hubs)


lemma settle_Advance:
  "settle n ([Advance], r, w) \<lparr>state = NORMAL_DISPATCH, sink = None, log = l, signalled = g, ctx = c, store = x\<rparr>
     = \<lparr>state = NORMAL_DISPATCH, sink = None, log = l @ [Invoked n], signalled = True, ctx = r, store = w\<rparr>"
  "settle n ([Advance], r, w) \<lparr>state = ERROR_DISPATCH v, sink = None, log = l, signalled = g, ctx = c, store = x\<rparr>
     = \<lparr>state = NORMAL_DISPATCH, sink = None, log = l @ [Invoked n], signalled = True, ctx = r, store = w\<rparr>"
  by (simp_all add: settle_def)

lemma settle_Fail:
  "settle n ([Fail u], r, w) \<lparr>state = NORMAL_DISPATCH, sink = None, log = l, signalled = g, ctx = c, store = x\<rparr>
     = \<lparr>state = ERROR_DISPATCH u, sink = None, log = l @ [Invoked n], signalled = True, ctx = r, store = w\<rparr>"
  "settle n ([Fail u], r, w) \<lparr>state = ERROR_DISPATCH v, sink = None, log = l, signalled = g, ctx = c, store = x\<rparr>
     = \<lparr>state = ERROR_DISPATCH u, sink = None, log = l @ [Invoked n], signalled = True, ctx = r, store = w\<rparr>"
  by (simp_all add: settle_def)

lemma settle_Write:
  "settle n ([Write s b], r, w) \<lparr>state = st, sink = None, log = l, signalled = g, ctx = c, store = x\<rparr>
     = \<lparr>state = TERMINATED, sink = Some (s, b), log = l @ [Invoked n, Wrote s b], signalled = True, ctx = r, store = w\<rparr>"
  by (simp add: settle_def write_response_def)

lemma visit_normal:
  "visit m p (Use scope n h) \<lparr>state = NORMAL_DISPATCH, sink = k, log = l, signalled = g, ctx = c, store = x\<rparr> =
     (if within_scope scope p
      then settle n (h c x) \<lparr>state = NORMAL_DISPATCH, sink = k, log = l, signalled = g, ctx = c, store = x\<rparr>
      else \<lparr>state = NORMAL_DISPATCH, sink = k, log = l, signalled = g, ctx = c, store = x\<rparr>)"
  "visit m p (Route v pat chain) \<lparr>state = NORMAL_DISPATCH, sink = k, log = l, signalled = g, ctx = c, store = x\<rparr> =
     (if v = m then
        (case match_pattern pat p of
           Some binds \<Rightarrow> run_chain chain
              \<lparr>state = NORMAL_DISPATCH, sink = k, log = l, signalled = g, ctx = c\<lparr>params := binds\<rparr>, store = x\<rparr>
         | None \<Rightarrow> \<lparr>state = NORMAL_DISPATCH, sink = k, log = l, signalled = g, ctx = c, store = x\<rparr>)
      else \<lparr>state = NORMAL_DISPATCH, sink = k, log = l, signalled = g, ctx = c, store = x\<rparr>)"
  "visit m p (ErrorHandler scope n eh) \<lparr>state = NORMAL_DISPATCH, sink = k, log = l, signalled = g, ctx = c, store = x\<rparr> =
     \<lparr>state = NORMAL_DISPATCH, sink = k, log = l, signalled = g, ctx = c, store = x\<rparr>"
  by (simp_all add: visit_def invoke_def split: option.splits)

lemma visit_error:
  "visit m p (Use scope n h) \<lparr>state = ERROR_DISPATCH v, sink = k, log = l, signalled = g, ctx = c, store = x\<rparr> =
     \<lparr>state = ERROR_DISPATCH v, sink = k, log = l, signalled = g, ctx = c, store = x\<rparr>"
  "visit m p (Route vb pat chain) \<lparr>state = ERROR_DISPATCH v, sink = k, log = l, signalled = g, ctx = c, store = x\<rparr> =
     \<lparr>state = ERROR_DISPATCH v, sink = k, log = l, signalled = g, ctx = c, store = x\<rparr>"
  "visit m p (ErrorHandler scope n eh) \<lparr>state = ERROR_DISPATCH v, sink = k, log = l, signalled = g, ctx = c, store = x\<rparr> =
     (if within_scope scope p
      then settle n (eh v c x) \<lparr>state = ERROR_DISPATCH v, sink = k, log = l, signalled = g, ctx = c, store = x\<rparr>
      else \<lparr>state = ERROR_DISPATCH v, sink = k, log = l, signalled = g, ctx = c, store = x\<rparr>)"
  by (simp_all add: visit_def invoke_error_def)

lemma visit_terminated:
  "visit m p e \<lparr>state = TERMINATED, sink = k, log = l, signalled = g, ctx = c, store = x\<rparr> =
     \<lparr>state = TERMINATED, sink = k, log = l, signalled = g, ctx = c, store = x\<rparr>"
  by (simp add: visit_def)

lemma run_chain_step:
  "run_chain ((n, h) # hs) \<lparr>state = NORMAL_DISPATCH, sink = k, log = l, signalled = g, ctx = c, store = x\<rparr> =
     run_chain hs (settle n (h c x) \<lparr>state = NORMAL_DISPATCH, sink = k, log = l, signalled = g, ctx = c, store = x\<rparr>)"
  "run_chain hs \<lparr>state = ERROR_DISPATCH v, sink = k, log = l, signalled = g, ctx = c, store = x\<rparr> =
     \<lparr>state = ERROR_DISPATCH v, sink = k, log = l, signalled = g, ctx = c, store = x\<rparr>"
  "run_chain hs \<lparr>state = TERMINATED, sink = k, log = l, signalled = g, ctx = c, store = x\<rparr> =
     \<lparr>state = TERMINATED, sink = k, log = l, signalled = g, ctx = c, store = x\<rparr>"
  by (simp add: invoke_def, (cases hs; auto), (cases hs; auto))

lemma finish_record:
  "finish \<lparr>state = TERMINATED, sink = k, log = l, signalled = g, ctx = c, store = x\<rparr> =
     \<lparr>state = TERMINATED, sink = k, log = l, signalled = g, ctx = c, store = x\<rparr>"
  "finish \<lparr>state = ERROR_DISPATCH v, sink = None, log = l, signalled = g, ctx = c, store = x\<rparr> =
     \<lparr>state = TERMINATED, sink = Some (500, v), log = l @ [Wrote 500 v], signalled = True, ctx = c, store = x\<rparr>"
  "finish \<lparr>state = NORMAL_DISPATCH, sink = None, log = l, signalled = g, ctx = c, store = x\<rparr> =
     \<lparr>state = TERMINATED, sink = Some (500, message ''no response was written''),
      log = l @ [DispatchInvariantViolation Deadlock, Wrote 500 (message ''no response was written'')],
      signalled = True, ctx = c, store = x\<rparr>"
  by (simp_all add: finish_def fallback_def deadlock_def write_response_def)

lemmas run = serve_def dispatch_def server_entries arrive_def segments_def
  settle_Advance settle_Fail settle_Write visit_normal visit_error visit_terminated
  run_chain_step finish_record

section \<open>Invariants of dispatch\<close>

lemma after_write_none: "filter is_Wrote evs = [] \<Longrightarrow> after_write evs = []"
  by (induction evs) (auto simp: after_write_def split: if_splits)

lemma after_write_snoc_none:
  "filter is_Wrote evs = [] \<Longrightarrow> after_write (evs @ [e]) = (if is_Wrote e then [e] else [])"
  by (induction evs) (auto simp: after_write_def split: if_splits)

lemma after_write_snoc_some:
  "filter is_Wrote evs \<noteq> [] \<Longrightarrow> after_write (evs @ [e]) = after_write evs @ [e]"
  by (induction evs) (auto simp: after_write_def split: if_splits)

lemma consistent_write_response: "consistent d \<Longrightarrow> consistent (write_response s b d)"
  by (auto simp: consistent_def write_response_def after_write_snoc_none after_write_snoc_some list_ex_iff
      split: option.splits)

lemma consistent_receive: "consistent d \<Longrightarrow> consistent (receive g d)"
  by (cases g) (auto simp: consistent_write_response, auto simp: consistent_def split: option.splits)

lemma consistent_fold_receive: "consistent d \<Longrightarrow> consistent (fold receive sigs d)"
  by (induction sigs arbitrary: d) (auto simp: consistent_receive)

lemma consistent_deadlock: "consistent d \<Longrightarrow> sink d = None \<Longrightarrow> consistent (deadlock d)"
  unfolding deadlock_def
  by (rule consistent_write_response)
     (auto simp: consistent_def after_write_snoc_none split: option.splits)

lemma signalled_fold_receive: "signalled d \<Longrightarrow> signalled (fold receive sigs d)"
proof (induction sigs arbitrary: d)
  case Nil then show ?case by simp
next
  case (Cons g sigs)
  have "signalled (receive g d)" using Cons.prems
    by (cases g) (auto simp: write_response_def split: option.splits)
  then show ?case using Cons.IH by simp
qed

lemma unsignalled_fold_receive:
  "\<not> signalled (fold receive sigs d) \<Longrightarrow> sink (fold receive sigs d) = sink d"
proof (induction sigs arbitrary: d)
  case Nil then show ?case by simp
next
  case (Cons g sigs)
  show ?case
  proof (cases "signalled (receive g d)")
    case True
    then show ?thesis using Cons.prems signalled_fold_receive by fastforce
  next
    case False
    then have "sink (receive g d) = sink d"
      by (cases g) (auto simp: write_response_def split: option.splits if_splits)
    then show ?thesis using Cons by simp
  qed
qed

lemma consistent_settle:
  assumes "consistent d" "state d \<noteq> TERMINATED"
  shows "consistent (settle n out d)"
proof -
  obtain sigs r w where out: "out = (sigs, r, w)" by (cases out) auto
  let ?d0 = "d\<lparr>log := log d @ [Invoked n], signalled := False, ctx := r, store := w\<rparr>"
  from assms have s0: "sink d = None" by (auto simp: consistent_def split: option.splits)
  have c0: "consistent ?d0" using assms s0
    by (auto simp: consistent_def after_write_snoc_none)
  have c1: "consistent (fold receive sigs ?d0)" using c0 by (rule consistent_fold_receive)
  show ?thesis
  proof (cases "signalled (fold receive sigs ?d0)")
    case True
    then show ?thesis using c1 by (simp add: settle_def out)
  next
    case False
    then have "sink (fold receive sigs ?d0) = None"
      using unsignalled_fold_receive[of sigs ?d0] s0 by simp
    then show ?thesis using c1 False by (simp add: settle_def out consistent_deadlock)
  qed
qed

lemma consistent_run_chain: "consistent d \<Longrightarrow> consistent (run_chain hs d)"
  by (induction hs d rule: run_chain.induct) (auto simp: invoke_def consistent_settle)

lemma consistent_ctx_update: "consistent (d\<lparr>ctx := c\<rparr>) = consistent d"
  by (simp add: consistent_def cong: option.case_cong)

lemma consistent_visit: "consistent d \<Longrightarrow> consistent (visit m p e d)"
  by (auto simp: visit_def invoke_def invoke_error_def consistent_settle consistent_run_chain
      consistent_ctx_update split: dstate.splits entry.splits option.splits)

lemma consistent_fold_visit: "consistent d \<Longrightarrow> consistent (fold (visit m p) es d)"
  by (induction es arbitrary: d) (auto simp: consistent_visit)

lemma sink_None_active: "consistent d \<Longrightarrow> state d \<noteq> TERMINATED \<Longrightarrow> sink d = None"
  by (auto simp: consistent_def split: option.splits)

lemma consistent_finish: "consistent d \<Longrightarrow> consistent (finish d)"
  by (cases "state d")
     (simp_all add: finish_def fallback_def consistent_write_response consistent_deadlock
        sink_None_active)

lemma terminated_finish: "consistent d \<Longrightarrow> state (finish d) = TERMINATED"
  by (auto simp: finish_def fallback_def deadlock_def write_response_def consistent_def
      split: dstate.splits option.splits)

lemma consistent_arrive: "consistent (arrive r w)"
  by (simp add: consistent_def arrive_def after_write_def)

lemma consistent_serve: "consistent (serve es m path r w) \<and> state (serve es m path r w) = TERMINATED"
  by (simp add: serve_def dispatch_def consistent_finish terminated_finish consistent_fold_visit consistent_arrive)


lemma fold_receive_idle:
  "signalled d \<Longrightarrow> \<not> list_ex is_Write sigs \<Longrightarrow> fold receive sigs d = d"
proof (induction sigs)
  case Nil then show ?case by simp
next
  case (Cons g sigs)
  then have "receive g d = d" by (cases g) auto
  then show ?case using Cons by simp
qed

lemma settle_resignal:
  assumes "sink d = None" "state d \<noteq> TERMINATED" "\<not> list_ex is_Write rest"
  shows "settle n (Fail u # rest, r, w) d =
           d\<lparr>state := ERROR_DISPATCH u, log := log d @ [Invoked n], signalled := True,
             ctx := r, store := w\<rparr>"
proof -
  define d1 where "d1 = receive (Fail u)
      (d\<lparr>log := log d @ [Invoked n], signalled := False, ctx := r, store := w\<rparr>)"
  have sg: "signalled d1" using assms(2) by (simp add: d1_def)
  have idle: "fold receive rest d1 = d1" using sg assms(3) by (rule fold_receive_idle)
  have "settle n (Fail u # rest, r, w) d =
      (if signalled (fold receive rest d1) then fold receive rest d1
       else deadlock (fold receive rest d1))"
    by (simp add: settle_def d1_def Let_def)
  then have "settle n (Fail u # rest, r, w) d = d1" using idle sg by simp
  then show ?thesis using assms(2) by (simp add: d1_def)
qed

lemma passes_on_resignals: "passes_on h \<Longrightarrow> resignals h"
  unfolding passes_on_def resignals_def by blast

lemma error_track_visit:
  assumes "state d = ERROR_DISPATCH v" "sink d = None"
    and "\<forall>scope n h. e = ErrorHandler scope n h \<and> within_scope scope p \<longrightarrow> resignals h"
  shows "\<exists>u ns. state (visit m p e d) = ERROR_DISPATCH u \<and> sink (visit m p e d) = None
           \<and> log (visit m p e d) = log d @ map Invoked ns
           \<and> (\<forall>n \<in> set ns. \<exists>scope h. e = ErrorHandler scope n h \<and> within_scope scope p)
           \<and> ((\<forall>scope n h. e = ErrorHandler scope n h \<and> within_scope scope p \<longrightarrow> passes_on h)
                \<longrightarrow> u = v)"
proof (cases e)
  case (Use scope n h)
  then show ?thesis using assms(1,2) by (auto simp: visit_def intro: exI[of _ "[]"])
next
  case (Route vb pat chain)
  then show ?thesis using assms(1,2) by (auto simp: visit_def intro: exI[of _ "[]"])
next
  case (ErrorHandler scope n h)
  show ?thesis
  proof (cases "within_scope scope p")
    case False
    then show ?thesis using ErrorHandler assms(1,2) by (auto simp: visit_def intro: exI[of _ "[]"])
  next
    case True
    then have "resignals h" using assms(3) ErrorHandler by blast
    then obtain u rest r' w' where
      out: "h v (ctx d) (store d) = (Fail u # rest, r', w')" and nw: "\<not> list_ex is_Write rest"
      unfolding resignals_def by blast
    have st: "state d \<noteq> TERMINATED" using assms(1) by simp
    have vis: "visit m p e d = d\<lparr>state := ERROR_DISPATCH u, log := log d @ [Invoked n],
        signalled := True, ctx := r', store := w'\<rparr>"
      using ErrorHandler True assms(1) out settle_resignal[OF assms(2) st nw]
      by (simp add: visit_def invoke_error_def)
    have same: "passes_on h \<Longrightarrow> u = v"
    proof -
      assume "passes_on h"
      then obtain rest2 r2 w2 where "h v (ctx d) (store d) = (Fail v # rest2, r2, w2)"
        unfolding passes_on_def by blast
      with out show "u = v" by simp
    qed
    show ?thesis
      apply (rule exI[of _ u], rule exI[of _ "[n]"])
      using vis assms(2) ErrorHandler True same by auto
  qed
qed

lemma error_track_fold:
  assumes "\<forall>scope n h. ErrorHandler scope n h \<in> set es \<and> within_scope scope p \<longrightarrow> resignals h"
    and "state d = ERROR_DISPATCH v" "sink d = None"
  shows "\<exists>u ns. state (fold (visit m p) es d) = ERROR_DISPATCH u
           \<and> sink (fold (visit m p) es d) = None
           \<and> log (fold (visit m p) es d) = log d @ map Invoked ns
           \<and> (\<forall>n \<in> set ns. \<exists>scope h. ErrorHandler scope n h \<in> set es \<and> within_scope scope p)
           \<and> ((\<forall>scope n h. ErrorHandler scope n h \<in> set es \<and> within_scope scope p \<longrightarrow> passes_on h)
                \<longrightarrow> u = v)"
  using assms
proof (induction es arbitrary: d v)
  case Nil
  then show ?case by (auto intro: exI[of _ "[]"])
next
  case (Cons e es)
  have h1: "\<forall>scope n h. e = ErrorHandler scope n h \<and> within_scope scope p \<longrightarrow> resignals h"
    using Cons.prems(1) by auto
  from error_track_visit[OF Cons.prems(2,3) h1, of m]
  obtain u ns where
    s1: "state (visit m p e d) = ERROR_DISPATCH u" and
    k1: "sink (visit m p e d) = None" and
    l1: "log (visit m p e d) = log d @ map Invoked ns" and
    n1: "\<forall>n \<in> set ns. \<exists>scope h. e = ErrorHandler scope n h \<and> within_scope scope p" and
    p1: "(\<forall>scope n h. e = ErrorHandler scope n h \<and> within_scope scope p \<longrightarrow> passes_on h)
                \<longrightarrow> u = v"
    by blast
  have h2: "\<forall>scope n h. ErrorHandler scope n h \<in> set es \<and> within_scope scope p \<longrightarrow> resignals h"
    using Cons.prems(1) by auto
  from Cons.IH[OF h2 s1 k1]
  obtain u' ns' where
    s2: "state (fold (visit m p) es (visit m p e d)) = ERROR_DISPATCH u'" and
    k2: "sink (fold (visit m p) es (visit m p e d)) = None" and
    l2: "log (fold (visit m p) es (visit m p e d)) = log (visit m p e d) @ map Invoked ns'" and
    n2: "\<forall>n \<in> set ns'. \<exists>scope h. ErrorHandler scope n h \<in> set es \<and> within_scope scope p" and
    p2: "(\<forall>scope n h. ErrorHandler scope n h \<in> set es \<and> within_scope scope p \<longrightarrow> passes_on h)
                \<longrightarrow> u' = u"
    by blast
  have nn: "\<forall>n \<in> set (ns @ ns'). \<exists>scope h. ErrorHandler scope n h \<in> set (e # es) \<and> within_scope scope p"
    using n1 n2 by fastforce
  have pp: "(\<forall>scope n h. ErrorHandler scope n h \<in> set (e # es) \<and> within_scope scope p \<longrightarrow> passes_on h)
                \<longrightarrow> u' = v"
    using p1 p2 by auto
  have ll: "log (fold (visit m p) (e # es) d) = log d @ map Invoked (ns @ ns')"
    using l1 l2 by simp
  show ?case
    apply (rule exI[of _ u'], rule exI[of _ "ns @ ns'"])
    using s2 k2 ll nn pp by simp
qed

lemma error_track_dispatch:
  assumes "\<forall>scope n h. ErrorHandler scope n h \<in> set es \<and> within_scope scope p \<longrightarrow> resignals h"
    and "state d = ERROR_DISPATCH v" "sink d = None"
  shows "\<exists>u ns. state (dispatch es m p d) = TERMINATED
           \<and> sink (dispatch es m p d) = Some (500, u)
           \<and> log (dispatch es m p d) = log d @ map Invoked ns @ [Wrote 500 u]
           \<and> (\<forall>n \<in> set ns. \<exists>scope h. ErrorHandler scope n h \<in> set es \<and> within_scope scope p)
           \<and> ((\<forall>scope n h. ErrorHandler scope n h \<in> set es \<and> within_scope scope p \<longrightarrow> passes_on h)
                \<longrightarrow> u = v)"
proof -
  from error_track_fold[OF assms, of m]
  obtain u ns where
    s: "state (fold (visit m p) es d) = ERROR_DISPATCH u" and
    k: "sink (fold (visit m p) es d) = None" and
    l: "log (fold (visit m p) es d) = log d @ map Invoked ns" and
    n: "\<forall>n \<in> set ns. \<exists>scope h. ErrorHandler scope n h \<in> set es \<and> within_scope scope p" and
    q: "(\<forall>scope n h. ErrorHandler scope n h \<in> set es \<and> within_scope scope p \<longrightarrow> passes_on h)
                \<longrightarrow> u = v"
    by blast
  show ?thesis
    apply (rule exI[of _ u], rule exI[of _ ns])
    using s k l n q
    by (simp add: dispatch_def finish_def fallback_def write_response_def)
qed

lemma late_fold_receive:
  "sink d = Some first \<Longrightarrow> state d = TERMINATED \<Longrightarrow>
   fold receive gs d = d\<lparr>log := log d @ late_writes gs\<rparr>"
proof (induction gs arbitrary: d)
  case Nil then show ?case by simp
next
  case (Cons g gs)
  show ?case
  proof (cases g)
    case Advance
    then show ?thesis using Cons by simp
  next
    case (Fail v)
    then show ?thesis using Cons by simp
  next
    case (Write s b)
    let ?d1 = "d\<lparr>log := log d @ [DispatchInvariantViolation (DoubleWrite s b)]\<rparr>"
    have r: "receive g d = ?d1" using Write Cons.prems by (simp add: write_response_def)
    have "fold receive gs ?d1 = ?d1\<lparr>log := log ?d1 @ late_writes gs\<rparr>"
      using Cons.prems by (intro Cons.IH) auto
    then show ?thesis using r Write by simp
  qed
qed

lemma settle_write_first:
  assumes "sink d = None"
  shows "settle n (Write s b # gs, r, w) d =
           d\<lparr>state := TERMINATED, sink := Some (s, b),
             log := log d @ [Invoked n, Wrote s b] @ late_writes gs,
             signalled := True, ctx := r, store := w\<rparr>"
proof -
  define d1 where "d1 = receive (Write s b)
      (d\<lparr>log := log d @ [Invoked n], signalled := False, ctx := r, store := w\<rparr>)"
  have sk: "sink d1 = Some (s, b)" "state d1 = TERMINATED" "signalled d1"
    using assms by (simp_all add: d1_def write_response_def)
  have late: "fold receive gs d1 = d1\<lparr>log := log d1 @ late_writes gs\<rparr>"
    using sk(1,2) by (rule late_fold_receive)
  have "settle n (Write s b # gs, r, w) d =
      (if signalled (fold receive gs d1) then fold receive gs d1
       else deadlock (fold receive gs d1))"
    by (simp add: settle_def d1_def Let_def)
  then have "settle n (Write s b # gs, r, w) d = d1\<lparr>log := log d1 @ late_writes gs\<rparr>"
    using late sk(3) by simp
  then show ?thesis using assms by (simp add: d1_def write_response_def)
qed

section \<open>Requests traced through the application\<close>

lemmas handlers = methodLogger_def pass_on_def hubs_router_use_def error_middleware_def
  addName_def gateKeeper_def

text \<open>
  C3 (as stated). The guard \<open>requireBody\<close> signals fail exactly when the decoded body is
  absent or an empty mapping. It does not: \<^verbatim>\<open>express.json()\<close> also delivers arrays, and
  on the empty array, which is neither absent nor a mapping, the guard signals fail.
\<close>

theorem requireBody_fails_on_empty_array:
  "requireBody (request (JObj []) (JArr [])) store5 =
     ([Fail (message ''You need to supply a body with this request'')],
      request (JObj []) (JArr []), store5)
   \<and> JArr [] \<noteq> JUndefined \<and> JArr [] \<noteq> JObj []"
  by (simp add: requireBody_def Object_keys_def request_def)

text \<open>
  C3 (amended). The guard \<open>requireBody\<close>, on every decoded body, signals fail exactly
  when the body is falsy or has no own enumerable key: when it is absent, \<open>null\<close>, a
  boolean, a number, or an empty mapping, array or string; it advances on a non-empty
  mapping, array or string. For \<open>POST /api/hubs\<close> with an absent body or the empty
  mapping the failure carries the message \<open>You need to supply a body with this request\<close>;
  the one registered error handler is invoked and does not answer, and the fallback
  responds 500 with that failure value.
\<close>

theorem requireBody_fails_without_body:
  "requireBody r w =
     (case body r of
        JObj kvs \<Rightarrow>
          if kvs = [] then ([Fail (message ''You need to supply a body with this request'')], r, w)
          else ([Advance], r, w)
      | JArr xs \<Rightarrow>
          if xs = [] then ([Fail (message ''You need to supply a body with this request'')], r, w)
          else ([Advance], r, w)
      | JStr t \<Rightarrow>
          if t = [] then ([Fail (message ''You need to supply a body with this request'')], r, w)
          else ([Advance], r, w)
      | JUndefined \<Rightarrow> ([Fail (message ''You need to supply a body with this request'')], r, w)
      | JNull \<Rightarrow> ([Fail (message ''You need to supply a body with this request'')], r, w)
      | JBool c \<Rightarrow> ([Fail (message ''You need to supply a body with this request'')], r, w)
      | JNum n \<Rightarrow> ([Fail (message ''You need to supply a body with this request'')], r, w))
   \<and> Route POST [] [(''requireBody'', requireBody), (''post /'', post_hub D)]
       \<in> set (hubsRouter D)
   \<and> (b = JUndefined \<or> b = JObj [] \<longrightarrow>
        sink (serve (server D seconds) POST ''/api/hubs'' (request q b) x) =
          Some (500, message ''You need to supply a body with this request'')
        \<and> log (serve (server D seconds) POST ''/api/hubs'' (request q b) x) =
          [Invoked ''methodLogger'', Invoked ''express.json'', Invoked ''router.use'',
           Invoked ''requireBody'', Invoked ''error middleware'',
           Wrote 500 (message ''You need to supply a body with this request'')])"
proof -
  have guard: "requireBody r w =
     (case body r of
        JObj kvs \<Rightarrow>
          if kvs = [] then ([Fail (message ''You need to supply a body with this request'')], r, w)
          else ([Advance], r, w)
      | JArr xs \<Rightarrow>
          if xs = [] then ([Fail (message ''You need to supply a body with this request'')], r, w)
          else ([Advance], r, w)
      | JStr t \<Rightarrow>
          if t = [] then ([Fail (message ''You need to supply a body with this request'')], r, w)
          else ([Advance], r, w)
      | JUndefined \<Rightarrow> ([Fail (message ''You need to supply a body with this request'')], r, w)
      | JNull \<Rightarrow> ([Fail (message ''You need to supply a body with this request'')], r, w)
      | JBool c \<Rightarrow> ([Fail (message ''You need to supply a body with this request'')], r, w)
      | JNum n \<Rightarrow> ([Fail (message ''You need to supply a body with this request'')], r, w))"
    by (cases "body r") (auto simp: requireBody_def Object_keys_def)
  have route: "Route POST [] [(''requireBody'', requireBody), (''post /'', post_hub D)]
       \<in> set (hubsRouter D)"
    by (simp add: hubsRouter_def patterns)
  have run: "b = JUndefined \<or> b = JObj [] \<Longrightarrow>
      serve (server D seconds) POST ''/api/hubs'' (request q b) x =
        \<lparr>state = TERMINATED,
         sink = Some (500, message ''You need to supply a body with this request''),
         log = [Invoked ''methodLogger'', Invoked ''express.json'', Invoked ''router.use'',
           Invoked ''requireBody'', Invoked ''error middleware'',
           Wrote 500 (message ''You need to supply a body with this request'')],
         signalled = True, ctx = request q b, store = x\<rparr>"
    by (auto simp: run handlers request_def requireBody_def Object_keys_def
        simp del: run_chain.simps(2))
  have traced: "b = JUndefined \<or> b = JObj [] \<longrightarrow>
        sink (serve (server D seconds) POST ''/api/hubs'' (request q b) x) =
          Some (500, message ''You need to supply a body with this request'')
        \<and> log (serve (server D seconds) POST ''/api/hubs'' (request q b) x) =
          [Invoked ''methodLogger'', Invoked ''express.json'', Invoked ''router.use'',
           Invoked ''requireBody'', Invoked ''error middleware'',
           Wrote 500 (message ''You need to supply a body with this request'')]"
    using run by auto
  show ?thesis using guard route traced by blast
qed

theorem requireBody_fails_without_body_witness:
  "requireBody (request (JObj []) (JObj [])) store5 =
     ([Fail (message ''You need to supply a body with this request'')],
      request (JObj []) (JObj []), store5)
   \<and> requireBody (request (JObj []) (JObj [(''name'', JStr ''Acme'')])) store5 =
     ([Advance], request (JObj []) (JObj [(''name'', JStr ''Acme'')]), store5)
   \<and> requireBody (request (JObj []) (JArr [JNum 1])) store5 =
     ([Advance], request (JObj []) (JArr [JNum 1]), store5)
   \<and> requireBody (request (JObj []) JUndefined) store5 =
     ([Fail (message ''You need to supply a body with this request'')],
      request (JObj []) JUndefined, store5)
   \<and> sink (serve (server memory_db 7) POST ''/api/hubs'' (request (JObj []) (JObj [])) store5) =
       Some (500, message ''You need to supply a body with this request'')"
proof -
  have e: "JObj [] = JUndefined \<or> JObj [] = JObj []" by simp
  note T = requireBody_fails_without_body [where w = store5 and D = memory_db and b = "JObj []"
      and seconds = 7 and q = "JObj []" and x = store5]
  have one: "requireBody (request (JObj []) (JObj [])) store5 =
     ([Fail (message ''You need to supply a body with this request'')],
      request (JObj []) (JObj []), store5)"
    using T [where r = "request (JObj []) (JObj [])"] by (simp add: request_def)
  have two: "requireBody (request (JObj []) (JObj [(''name'', JStr ''Acme'')])) store5 =
     ([Advance], request (JObj []) (JObj [(''name'', JStr ''Acme'')]), store5)"
    using T [where r = "request (JObj []) (JObj [(''name'', JStr ''Acme'')])"]
    by (simp add: request_def)
  have three: "requireBody (request (JObj []) (JArr [JNum 1])) store5 =
     ([Advance], request (JObj []) (JArr [JNum 1]), store5)"
    using T [where r = "request (JObj []) (JArr [JNum 1])"] by (simp add: request_def)
  have four: "requireBody (request (JObj []) JUndefined) store5 =
     ([Fail (message ''You need to supply a body with this request'')],
      request (JObj []) JUndefined, store5)"
    using T [where r = "request (JObj []) JUndefined"] by (simp add: request_def)
  have five: "sink (serve (server memory_db 7) POST ''/api/hubs'' (request (JObj []) (JObj []))
      store5) = Some (500, message ''You need to supply a body with this request'')"
    using T [where r = "request (JObj []) (JObj [])"] e by blast
  show ?thesis using one two three four five by blast
qed

text \<open>
  \<open>DELETE /api/hubs/k\<close> traced for any persistence layer: when the guard's lookup
  finds the hub, and when it finds nothing.
\<close>

lemma delete_first:
  "k \<noteq> [] \<Longrightarrow> Hubs_findById D (JStr k) w = (Inr (Some h), w1) \<Longrightarrow>
   Hubs_remove D (JStr k) w1 = (Inr c, w2) \<Longrightarrow>
   dispatch (server D s1) DELETE [''api'', ''hubs'', k] (arrive r w) =
     \<lparr>state = TERMINATED,
      sink = Some (if c > 0 then (200, message ''The hub has been nuked'')
                   else (404, message ''The hub could not be found'')),
      log = [Invoked ''methodLogger'', Invoked ''express.json'', Invoked ''router.use'',
             Invoked ''validateId'', Invoked ''delete /:id'',
             (if c > 0 then Wrote 200 (message ''The hub has been nuked'')
              else Wrote 404 (message ''The hub could not be found''))],
      signalled = True, ctx = r\<lparr>params := [(''id'', k)], hub := Some h\<rparr>, store = w2\<rparr>"
  by (simp add: run handlers validateId_def delete_hub_def param_def
        del: run_chain.simps(2))

lemma delete_absent:
  "k \<noteq> [] \<Longrightarrow> Hubs_findById D (JStr k) w = (Inr None, w1) \<Longrightarrow>
   dispatch (server D s1) DELETE [''api'', ''hubs'', k] (arrive r w) =
     \<lparr>state = TERMINATED,
      sink = Some (500, message ''the id you sent was invalid''),
      log = [Invoked ''methodLogger'', Invoked ''express.json'', Invoked ''router.use'',
             Invoked ''validateId'', Invoked ''error middleware'',
             Wrote 500 (message ''the id you sent was invalid'')],
      signalled = True, ctx = r\<lparr>params := [(''id'', k)]\<rparr>, store = w1\<rparr>"
  by (simp add: run handlers validateId_def delete_hub_def param_def
        del: run_chain.simps(2))

text \<open>
  C4 (as stated). Repeating \<open>DELETE /hubs/5\<close> after the hub was deleted responds 404.
  It does not: on the store left by the first request the second one ends with 500
  and the guard's failure value.
\<close>

theorem repeated_delete_is_not_404:
  "sink (serve (server memory_db 7) DELETE ''/api/hubs/5'' (request (JObj []) JUndefined)
         (store (serve (server memory_db 7) DELETE ''/api/hubs/5'' (request (JObj []) JUndefined)
            store5))) =
     Some (500, message ''the id you sent was invalid'')
   \<and> sink (serve (server memory_db 7) DELETE ''/api/hubs/5'' (request (JObj []) JUndefined)
         (store (serve (server memory_db 7) DELETE ''/api/hubs/5'' (request (JObj []) JUndefined)
            store5))) \<noteq>
     Some (404, message ''The hub could not be found'')"
proof -
  have first: "store (serve (server memory_db 7) DELETE ''/api/hubs/5''
      (request (JObj []) JUndefined) store5) = store5\<lparr>hub_rows := []\<rparr>"
    by (simp add: run handlers validateId_def delete_hub_def param_def memory_db_def store5_def
        request_def del: run_chain.simps(2))
  have second: "sink (serve (server memory_db 7) DELETE ''/api/hubs/5''
      (request (JObj []) JUndefined) (store5\<lparr>hub_rows := []\<rparr>)) =
     Some (500, message ''the id you sent was invalid'')"
    by (simp add: run handlers validateId_def delete_hub_def param_def memory_db_def store5_def
        request_def del: run_chain.simps(2))
  show ?thesis unfolding first second by simp
qed

text \<open>
  C4 (amended). The route \<open>DELETE /:id\<close> is registered with the guard \<open>validateId\<close>
  before its terminal handler; the guard signals fail when its lookup finds nothing,
  and the terminal handler answers by the count that \<open>Hubs.remove\<close> returns: 200 when
  it is positive, 404 when it is not. So \<open>DELETE /api/hubs/k\<close> where the lookup finds
  the hub runs the terminal handler, which calls \<open>Hubs.remove\<close> and, on count 1,
  responds 200. Repeating the request once the lookup finds nothing fails at the
  guard: the terminal handler is not invoked, \<open>Hubs.remove\<close> is not called again, and
  the fallback responds 500 with \<open>the id you sent was invalid\<close>.
\<close>

theorem delete_repeated_fails_at_guard:
  "Route DELETE [Param ''id''] [(''validateId'', validateId D), (''delete /:id'', delete_hub D)]
     \<in> set (hubsRouter D)
   \<and> (Hubs_findById D (param r ''id'') x = (Inr None, x') \<longrightarrow>
        validateId D r x = ([Fail (message ''the id you sent was invalid'')], r, x'))
   \<and> (Hubs_remove D (param r ''id'') x = (Inr n, x') \<longrightarrow>
        delete_hub D r x =
          ([if n > 0 then Write 200 (message ''The hub has been nuked'')
            else Write 404 (message ''The hub could not be found'')], r, x'))
   \<and> (k \<noteq> [] \<and> Hubs_findById D (JStr k) w = (Inr (Some h), w1)
     \<and> Hubs_remove D (JStr k) w1 = (Inr c, w2)
     \<and> Hubs_findById D (JStr k) w2 = (Inr None, w3) \<longrightarrow>
   (let d1 = dispatch (server D s1) DELETE [''api'', ''hubs'', k] (arrive r1 w);
        d2 = dispatch (server D s2) DELETE [''api'', ''hubs'', k] (arrive r2 (store d1))
    in sink d1 = Some (if c > 0 then (200, message ''The hub has been nuked'')
                       else (404, message ''The hub could not be found''))
     \<and> log d1 = [Invoked ''methodLogger'', Invoked ''express.json'', Invoked ''router.use'',
             Invoked ''validateId'', Invoked ''delete /:id'',
             (if c > 0 then Wrote 200 (message ''The hub has been nuked'')
              else Wrote 404 (message ''The hub could not be found''))]
     \<and> store d1 = w2
     \<and> sink d2 = Some (500, message ''the id you sent was invalid'')
     \<and> log d2 = [Invoked ''methodLogger'', Invoked ''express.json'', Invoked ''router.use'',
             Invoked ''validateId'', Invoked ''error middleware'',
             Wrote 500 (message ''the id you sent was invalid'')]
     \<and> store d2 = w3))"
proof (intro conjI impI, goal_cases)
  case 1
  show ?case by (simp add: hubsRouter_def patterns)
next
  case 2
  then show ?case by (simp add: validateId_def)
next
  case 3
  then show ?case by (simp add: delete_hub_def)
next
  case 4
  then have k: "k \<noteq> []"
    and f1: "Hubs_findById D (JStr k) w = (Inr (Some h), w1)"
    and rm: "Hubs_remove D (JStr k) w1 = (Inr c, w2)"
    and f2: "Hubs_findById D (JStr k) w2 = (Inr None, w3)"
    by simp_all
  note one = delete_first [OF k f1 rm, of s1 r1]
  have st: "store (dispatch (server D s1) DELETE [''api'', ''hubs'', k] (arrive r1 w)) = w2"
    by (simp add: one)
  note two = delete_absent [OF k f2, of s2 r2]
  show ?case
    unfolding Let_def st by (simp add: one two)
qed

theorem delete_repeated_fails_at_guard_witness:
  "sink (dispatch (server memory_db 7) DELETE [''api'', ''hubs'', ''5'']
          (arrive (request (JObj []) JUndefined) store5)) =
     Some (200, message ''The hub has been nuked'')
   \<and> store (dispatch (server memory_db 7) DELETE [''api'', ''hubs'', ''5'']
          (arrive (request (JObj []) JUndefined) store5)) = store5\<lparr>hub_rows := []\<rparr>
   \<and> sink (dispatch (server memory_db 8) DELETE [''api'', ''hubs'', ''5'']
          (arrive (request (JObj []) JUndefined) (store5\<lparr>hub_rows := []\<rparr>))) =
     Some (500, message ''the id you sent was invalid'')"
proof -
  let ?d1 = "dispatch (server memory_db 7) DELETE [''api'', ''hubs'', ''5'']
          (arrive (request (JObj []) JUndefined) store5)"
  have f1: "Hubs_findById memory_db (JStr ''5'') store5 = (Inr (Some hub5), store5)"
    by (simp add: memory_db_def store5_def)
  have rm: "Hubs_remove memory_db (JStr ''5'') store5 = (Inr 1, store5\<lparr>hub_rows := []\<rparr>)"
    by (simp add: memory_db_def store5_def)
  have f2: "Hubs_findById memory_db (JStr ''5'') (store5\<lparr>hub_rows := []\<rparr>) =
      (Inr None, store5\<lparr>hub_rows := []\<rparr>)"
    by (simp add: memory_db_def store5_def)
  have k: "''5'' \<noteq> []" by simp
  have both: "let d1 = ?d1;
        d2 = dispatch (server memory_db 8) DELETE [''api'', ''hubs'', ''5'']
               (arrive (request (JObj []) JUndefined) (store d1))
    in sink d1 = Some (if (1::int) > 0 then (200, message ''The hub has been nuked'')
                       else (404, message ''The hub could not be found''))
     \<and> log d1 = [Invoked ''methodLogger'', Invoked ''express.json'', Invoked ''router.use'',
             Invoked ''validateId'', Invoked ''delete /:id'',
             (if (1::int) > 0 then Wrote 200 (message ''The hub has been nuked'')
              else Wrote 404 (message ''The hub could not be found''))]
     \<and> store d1 = store5\<lparr>hub_rows := []\<rparr>
     \<and> sink d2 = Some (500, message ''the id you sent was invalid'')
     \<and> log d2 = [Invoked ''methodLogger'', Invoked ''express.json'', Invoked ''router.use'',
             Invoked ''validateId'', Invoked ''error middleware'',
             Wrote 500 (message ''the id you sent was invalid'')]
     \<and> store d2 = store5\<lparr>hub_rows := []\<rparr>"
    using delete_repeated_fails_at_guard [where k = "''5''" and D = memory_db and w = store5
        and h = hub5 and ?w1.0 = store5 and c = 1 and ?w2.0 = "store5\<lparr>hub_rows := []\<rparr>"
        and ?w3.0 = "store5\<lparr>hub_rows := []\<rparr>" and ?s1.0 = 7
        and ?r1.0 = "request (JObj []) JUndefined" and ?s2.0 = 8
        and ?r2.0 = "request (JObj []) JUndefined"] k f1 rm f2
    by blast
  then show ?thesis unfolding Let_def by (elim conjE) simp
qed




section \<open>One response per request\<close>

text \<open>
  C6. Every request served ends terminated with the sink filled and exactly one
  accepted write in the log, and no handler is invoked after that write. After
  termination an advance changes nothing and neither a further entry nor a chain
  invokes anything. A write attempted on a filled sink leaves the sink as it is and is
  reported as a \<open>DispatchInvariantViolation\<close>; so a handler that writes and then goes on
  leaves its first response in the sink, one report for each later write, and nothing
  for its later advance or fail signals.
\<close>

theorem at_most_one_response_write:
  "(\<exists>s b. sink (serve es m path r w) = Some (s, b)
        \<and> state (serve es m path r w) = TERMINATED
        \<and> filter is_Wrote (log (serve es m path r w)) = [Wrote s b])
   \<and> \<not> list_ex is_Invoked (after_write (log (serve es m path r w)))
   \<and> (state d = TERMINATED \<longrightarrow>
        receive Advance d = d \<and> visit m p e d = d \<and> run_chain hs d = d)
   \<and> (sink d = Some first \<longrightarrow>
        receive (Write s' b') d =
          d\<lparr>log := log d @ [DispatchInvariantViolation (DoubleWrite s' b')]\<rparr>)
   \<and> (sink d = None \<longrightarrow>
        settle n (Write s' b' # gs, r', w') d =
          d\<lparr>state := TERMINATED, sink := Some (s', b'),
            log := log d @ [Invoked n, Wrote s' b'] @ late_writes gs,
            signalled := True, ctx := r', store := w'\<rparr>)"
proof -
  have c: "consistent (serve es m path r w)" and t: "state (serve es m path r w) = TERMINATED"
    using consistent_serve [of es m path r w] by simp_all
  have one: "\<exists>s b. sink (serve es m path r w) = Some (s, b)
        \<and> state (serve es m path r w) = TERMINATED
        \<and> filter is_Wrote (log (serve es m path r w)) = [Wrote s b]"
    using c t by (cases "sink (serve es m path r w)") (auto simp: consistent_def)
  have two: "\<not> list_ex is_Invoked (after_write (log (serve es m path r w)))"
    using c by (simp add: consistent_def)
  have three: "state d = TERMINATED \<longrightarrow>
        receive Advance d = d \<and> visit m p e d = d \<and> run_chain hs d = d"
    by (cases hs) (auto simp: visit_def)
  have four: "sink d = Some first \<longrightarrow>
        receive (Write s' b') d =
          d\<lparr>log := log d @ [DispatchInvariantViolation (DoubleWrite s' b')]\<rparr>"
    by (simp add: write_response_def)
  have five: "sink d = None \<longrightarrow>
        settle n (Write s' b' # gs, r', w') d =
          d\<lparr>state := TERMINATED, sink := Some (s', b'),
            log := log d @ [Invoked n, Wrote s' b'] @ late_writes gs,
            signalled := True, ctx := r', store := w'\<rparr>"
    by (simp add: settle_write_first)
  show ?thesis using one two three four five by blast
qed

theorem at_most_one_response_write_witness:
  "settle ''writes_twice'' (writes_twice (request (JObj []) JUndefined) store5)
      (arrive (request (JObj []) JUndefined) store5) =
     \<lparr>state = TERMINATED, sink = Some (200, message ''first''),
      log = [Invoked ''writes_twice'', Wrote 200 (message ''first''),
             DispatchInvariantViolation (DoubleWrite 201 (message ''second''))],
      signalled = True, ctx = request (JObj []) JUndefined, store = store5\<rparr>
   \<and> log (serve [Use [] ''writes_twice'' writes_twice, Use [] ''addName'' addName] GET ''/''
          (request (JObj []) JUndefined) store5) =
       [Invoked ''writes_twice'', Wrote 200 (message ''first''),
        DispatchInvariantViolation (DoubleWrite 201 (message ''second''))]"
proof -
  let ?r = "request (JObj []) JUndefined"
  have none: "sink (arrive ?r store5) = None" by (simp add: arrive_def)
  have first: "settle ''writes_twice''
      (Write 200 (message ''first'') # [Advance, Write 201 (message ''second'')], ?r, store5)
      (arrive ?r store5) =
     (arrive ?r store5)\<lparr>state := TERMINATED, sink := Some (200, message ''first''),
        log := log (arrive ?r store5) @ [Invoked ''writes_twice'', Wrote 200 (message ''first'')]
               @ late_writes [Advance, Write 201 (message ''second'')],
        signalled := True, ctx := ?r, store := store5\<rparr>"
    by (rule at_most_one_response_write [where d = "arrive ?r store5" and n = "''writes_twice''" and s' = 200
          and b' = "message ''first''" and gs = "[Advance, Write 201 (message ''second'')]"
          and r' = ?r and w' = store5,
          THEN conjunct2, THEN conjunct2, THEN conjunct2, THEN conjunct2, THEN mp, OF none])
  then have settled: "settle ''writes_twice'' (writes_twice ?r store5) (arrive ?r store5) =
     \<lparr>state = TERMINATED, sink = Some (200, message ''first''),
      log = [Invoked ''writes_twice'', Wrote 200 (message ''first''),
             DispatchInvariantViolation (DoubleWrite 201 (message ''second''))],
      signalled = True, ctx = ?r, store = store5\<rparr>"
    by (simp add: writes_twice_def arrive_def)
  have v1: "visit GET [] (Use [] ''writes_twice'' writes_twice) (arrive ?r store5) =
      settle ''writes_twice'' (writes_twice ?r store5) (arrive ?r store5)"
    by (simp add: visit_def invoke_def arrive_def)
  have "log (serve [Use [] ''writes_twice'' writes_twice, Use [] ''addName'' addName] GET ''/''
          ?r store5) =
       [Invoked ''writes_twice'', Wrote 200 (message ''first''),
        DispatchInvariantViolation (DoubleWrite 201 (message ''second''))]"
    by (simp add: serve_def dispatch_def segments_def v1 settled visit_terminated finish_record)
  then show ?thesis using settled by simp
qed

section \<open>The error track and the fallback\<close>

text \<open>
  C1. When dispatch is on the error track with a failure value and nothing written,
  and every error handler of the remaining sequence whose scope contains the request
  path re-signals failure without writing, the dispatch ends terminated with exactly
  one response written, by the fallback: status 500 carrying the failure value that
  reached the end of the sequence, which is the original value when those handlers
  pass on the value they are given.
\<close>

theorem fallback_answers_unclaimed_failure:
  assumes "state d = ERROR_DISPATCH v" and "sink d = None"
    and "\<forall>scope n h. ErrorHandler scope n h \<in> set es \<and> within_scope scope p \<longrightarrow> resignals h"
  shows "\<exists>u ns. state (dispatch es m p d) = TERMINATED
           \<and> sink (dispatch es m p d) = Some (500, u)
           \<and> log (dispatch es m p d) = log d @ map Invoked ns @ [Wrote 500 u]
           \<and> filter is_Wrote (log (dispatch es m p d)) = filter is_Wrote (log d) @ [Wrote 500 u]
           \<and> ((\<forall>scope n h. ErrorHandler scope n h \<in> set es \<and> within_scope scope p \<longrightarrow> passes_on h)
                \<longrightarrow> u = v)"
proof -
  from error_track_dispatch [OF assms(3) assms(1) assms(2), of m]
  obtain u ns where
    t: "state (dispatch es m p d) = TERMINATED" and
    k: "sink (dispatch es m p d) = Some (500, u)" and
    l: "log (dispatch es m p d) = log d @ map Invoked ns @ [Wrote 500 u]" and
    q: "(\<forall>scope n h. ErrorHandler scope n h \<in> set es \<and> within_scope scope p \<longrightarrow> passes_on h)
                \<longrightarrow> u = v"
    by blast
  have "filter is_Wrote (map Invoked ns) = []" by (induction ns) auto
  then have f: "filter is_Wrote (log (dispatch es m p d)) = filter is_Wrote (log d) @ [Wrote 500 u]"
    using l by simp
  show ?thesis
    apply (rule exI[of _ u], rule exI[of _ ns])
    using t k l f q by simp
qed

lemma server_error_handlers:
  "ErrorHandler scope n h \<in> set (server D seconds) \<Longrightarrow>
   scope = [] \<and> n = ''error middleware'' \<and> h = error_middleware"
  by (auto simp: server_entries)

lemma passes_on_error_middleware: "passes_on error_middleware"
  by (simp add: passes_on_def error_middleware_def)

theorem fallback_answers_unclaimed_failure_witness:
  "sink (dispatch (server memory_db 7) GET [''api'', ''hubs'', ''5'']
     ((arrive (request (JObj []) JUndefined) store5)\<lparr>state := ERROR_DISPATCH (message ''boom'')\<rparr>)) =
   Some (500, message ''boom'')"
proof -
  let ?d = "(arrive (request (JObj []) JUndefined) store5)\<lparr>state := ERROR_DISPATCH (message ''boom'')\<rparr>"
  have st: "state ?d = ERROR_DISPATCH (message ''boom'')" by simp
  have sk: "sink ?d = None" by (simp add: arrive_def)
  have pa: "\<forall>scope n h. ErrorHandler scope n h \<in> set (server memory_db 7)
      \<and> within_scope scope [''api'', ''hubs'', ''5''] \<longrightarrow> passes_on h"
    using server_error_handlers passes_on_error_middleware by blast
  then have re: "\<forall>scope n h. ErrorHandler scope n h \<in> set (server memory_db 7)
      \<and> within_scope scope [''api'', ''hubs'', ''5''] \<longrightarrow> resignals h"
    using passes_on_resignals by blast
  from fallback_answers_unclaimed_failure [OF st sk re, of GET] pa show ?thesis by auto
qed

text \<open>
  C9. The error-handling middleware of \<open>server.js\<close> gives one signal, fail with the
  value it received, and writes nothing. It is the only error handler registered, so
  from any position of the application's sequence a failure on the error track, whatever
  its value, ends in the fallback's 500 response carrying that same value; the only
  handler that can be invoked on the way is this middleware.
\<close>

theorem error_middleware_passes_failure_to_fallback:
  "error_middleware v r w = ([Fail v], r, w)
   \<and> error_handlers (server D seconds) = [([], ''error middleware'', error_middleware)]
   \<and> (state d = ERROR_DISPATCH v \<and> sink d = None \<longrightarrow>
        state (dispatch (drop k (server D seconds)) m p d) = TERMINATED
      \<and> sink (dispatch (drop k (server D seconds)) m p d) = Some (500, v)
      \<and> (\<exists>ns. log (dispatch (drop k (server D seconds)) m p d) =
                 log d @ map Invoked ns @ [Wrote 500 v]
              \<and> set ns \<subseteq> {''error middleware''}))"
proof -
  have a: "error_middleware v r w = ([Fail v], r, w)" by (simp add: error_middleware_def)
  have b: "state (dispatch (drop k (server D seconds)) m p d) = TERMINATED
      \<and> sink (dispatch (drop k (server D seconds)) m p d) = Some (500, v)
      \<and> (\<exists>ns. log (dispatch (drop k (server D seconds)) m p d) =
                 log d @ map Invoked ns @ [Wrote 500 v]
              \<and> set ns \<subseteq> {''error middleware''})"
    if st: "state d = ERROR_DISPATCH v" and sk: "sink d = None"
  proof -
    let ?es = "drop k (server D seconds)"
    have mem: "\<And>scope n h. ErrorHandler scope n h \<in> set ?es \<Longrightarrow>
        n = ''error middleware'' \<and> h = error_middleware"
      using server_error_handlers in_set_dropD by fast
    have pa: "\<forall>scope n h. ErrorHandler scope n h \<in> set ?es \<and> within_scope scope p \<longrightarrow> passes_on h"
      using mem passes_on_error_middleware by blast
    then have re: "\<forall>scope n h. ErrorHandler scope n h \<in> set ?es \<and> within_scope scope p \<longrightarrow> resignals h"
      using passes_on_resignals by blast
    from error_track_dispatch [OF re st sk, of m]
    obtain u ns where
      t: "state (dispatch ?es m p d) = TERMINATED" and
      s: "sink (dispatch ?es m p d) = Some (500, u)" and
      l: "log (dispatch ?es m p d) = log d @ map Invoked ns @ [Wrote 500 u]" and
      n: "\<forall>n \<in> set ns. \<exists>scope h. ErrorHandler scope n h \<in> set ?es \<and> within_scope scope p" and
      q: "(\<forall>scope n h. ErrorHandler scope n h \<in> set ?es \<and> within_scope scope p \<longrightarrow> passes_on h)
                \<longrightarrow> u = v"
      by blast
    have uv: "u = v" using q pa by blast
    have sub: "set ns \<subseteq> {''error middleware''}" using n mem by blast
    show ?thesis using t s l uv sub by blast
  qed
  have c: "error_handlers (server D seconds) = [([], ''error middleware'', error_middleware)]"
    by (simp add: server_entries)
  show ?thesis using a b c by blast
qed

theorem error_middleware_passes_failure_to_fallback_witness:
  "error_middleware (message ''the id you sent was invalid'') (request (JObj []) JUndefined) store5 =
     ([Fail (message ''the id you sent was invalid'')], request (JObj []) JUndefined, store5)
   \<and> sink (dispatch (drop 0 (server memory_db 7)) GET [''api'', ''hubs'', ''999'']
       ((arrive (request (JObj []) JUndefined) store5)
          \<lparr>state := ERROR_DISPATCH (message ''the id you sent was invalid'')\<rparr>)) =
     Some (500, message ''the id you sent was invalid'')"
proof -
  let ?d = "(arrive (request (JObj []) JUndefined) store5)
          \<lparr>state := ERROR_DISPATCH (message ''the id you sent was invalid'')\<rparr>"
  have st: "state ?d = ERROR_DISPATCH (message ''the id you sent was invalid'') \<and> sink ?d = None"
    by (simp add: arrive_def)
  show ?thesis
    using error_middleware_passes_failure_to_fallback
        [where v = "message ''the id you sent was invalid''"
           and r = "request (JObj []) JUndefined" and w = store5 and d = ?d and k = 0
           and D = memory_db and seconds = 7 and m = GET and p = "[''api'', ''hubs'', ''999'']"] st
    by blast
qed

section \<open>The path matcher\<close>

text \<open>
  C7. A pattern matches a path exactly when both have the same number of segments
  and every position agrees (a literal with the same text, a parameter with a
  non-empty segment), and then binds each parameter to its segment. The pattern
  \<open>/:id/messages\<close> on \<open>/42/messages\<close> binds \<open>id\<close> to \<open>42\<close>; on \<open>/42\<close> it does not match.
\<close>

theorem match_pattern_by_position:
  "match_pattern pat segs =
     (if length pat = length segs \<and> list_all2 segment_ok pat segs
      then Some (bindings pat segs) else None)
   \<and> match_pattern (parse_pattern ''/:id/messages'') (segments ''/42/messages'') =
       Some [(''id'', ''42'')]
   \<and> match_pattern (parse_pattern ''/:id/messages'') (segments ''/42'') = None"
proof -
  have "match_pattern pat segs =
     (if length pat = length segs \<and> list_all2 segment_ok pat segs
      then Some (bindings pat segs) else None)"
    by (induction pat segs rule: match_pattern.induct) auto
  then show ?thesis by (simp add: patterns segments_def)
qed

theorem match_pattern_by_position_witness:
  "match_pattern [Param ''id'', Lit ''messages''] [''42'', ''messages''] = Some [(''id'', ''42'')]
   \<and> match_pattern [Param ''id'', Lit ''messages''] [''42''] = None
   \<and> match_pattern [Param ''id'', Lit ''messages''] [''42'', ''message''] = None
   \<and> match_pattern [Param ''id'', Lit ''messages''] [[], ''messages''] = None"
  using match_pattern_by_position [of "[Param ''id'', Lit ''messages'']" "[''42'', ''messages'']"]
    match_pattern_by_position [of "[Param ''id'', Lit ''messages'']" "[''42'']"]
    match_pattern_by_position [of "[Param ''id'', Lit ''messages'']" "[''42'', ''message'']"]
    match_pattern_by_position [of "[Param ''id'', Lit ''messages'']" "[[], ''messages'']"]
  by simp

end
